theory Spec2Isabelle
  imports Main "HOL-Library.Word" "HOL-Library.AList"
begin

section \<open>Data model\<close>

text \<open>
  The cross-reference service of \<^verbatim>\<open>kythe/go/storage/xrefs/xrefs.go\<close> answers its queries
  from a graph store of entries. Tickets are strings, fact values are byte strings, and a
  Go map that the code ranges over is an association list with distinct keys, written with
  \<^const>\<open>AList.update\<close> and read with \<^const>\<open>map_of\<close>. Go leaves the iteration
  order of a map open; the list order is one such order and no statement below depends on it.
\<close>

type_synonym ticket = string
type_synonym bytes = string
type_synonym int32 = "32 word"

text \<open>\<^verbatim>\<open>spb.VName\<close>: signature, corpus, root, path, language.\<close>

datatype VName = VName string string string string string

text \<open>
  \<^verbatim>\<open>spb.Entry\<close>. A node fact has the empty edge kind; its target is the zero VName.
\<close>

record Entry =
  Source :: VName
  EdgeKind :: string
  Target :: VName
  FactName :: string
  FactValue :: bytes

text \<open>\<^verbatim>\<open>xpb.Location_Point\<close> and \<^verbatim>\<open>xpb.Location\<close>: the offsets are Go \<^verbatim>\<open>int32\<close>.\<close>

record Point =
  ByteOffset :: int32
  LineNumber :: int32
  ColumnOffset :: int32

datatype Location_Kind = Location_FILE | Location_SPAN

record Location =
  LocTicket :: ticket
  LocKind :: Location_Kind
  LocStart :: "Point option"
  LocEnd :: "Point option"

datatype DefinitionKind = NO_DEFINITIONS | ALL_DEFINITIONS | FULL_DEFINITIONS | BINDING_DEFINITIONS
datatype ReferenceKind = NO_REFERENCES | CALL_REFERENCES | NON_CALL_REFERENCES | ALL_REFERENCES
datatype DocumentationKind = NO_DOCUMENTATION | ALL_DOCUMENTATION
datatype SpanKind = WITHIN_SPAN | AROUND_SPAN

text \<open>
  Errors are values. \<open>Failure\<close> is \<^verbatim>\<open>errors.New\<close> or a \<^verbatim>\<open>fmt.Errorf\<close> that wraps
  nothing, \<open>Wrapped\<close> is \<^verbatim>\<open>fmt.Errorf("...: %v", err)\<close>, \<open>StoreFailure\<close> is an error
  returned by the store, \<open>LibraryError\<close> an error returned by a helper package, and
  \<open>Panic\<close> a Go run-time panic.
\<close>

datatype error =
    Failure string
  | Wrapped string error
  | StoreFailure
  | LibraryError string
  | Panic string

section \<open>The helper packages\<close>

text \<open>
  The packages \<^verbatim>\<open>kytheuri\<close>, \<^verbatim>\<open>edges\<close>, \<^verbatim>\<open>schema\<close>, \<^verbatim>\<open>nodes\<close>, \<^verbatim>\<open>tickets\<close>,
  \<^verbatim>\<open>text\<close> and \<^verbatim>\<open>services/xrefs\<close> are imported by \<^verbatim>\<open>xrefs.go\<close> and are not part
  of the sources at hand. Every function and constant of theirs that the code calls is a
  field of the record \<open>lib\<close>, so each theorem holds for every implementation of them; a
  property of a helper that a proof needs is a hypothesis of the theorem. A normalizer
  (\<^verbatim>\<open>xrefs.NewNormalizer(text)\<close>) is represented by the text it was built from.
\<close>

record lib =
  ToVName :: "ticket \<Rightarrow> VName option"
  ToString :: "VName \<Rightarrow> ticket"
  FilterMatches :: "string \<Rightarrow> string \<Rightarrow> bool"
  ParseOrdinal :: "string \<Rightarrow> string \<times> int \<times> bool"
  IsForward :: "string \<Rightarrow> bool"
  IsReverse :: "string \<Rightarrow> bool"
  Mirror :: "string \<Rightarrow> string"
  Canonical :: "string \<Rightarrow> string"
  IsAnchorEdge :: "string \<Rightarrow> bool"
  edges_ChildOf :: string
  nodes_Anchor :: string
  schema_AnchorLocFilter :: string
  schema_SnippetLocFilter :: string
  IsDefKind :: "DefinitionKind \<Rightarrow> string \<Rightarrow> bool \<Rightarrow> bool"
  IsRefKind :: "ReferenceKind \<Rightarrow> string \<Rightarrow> bool"
  IsDocKind :: "DocumentationKind \<Rightarrow> string \<Rightarrow> bool"
  NormByteOffset :: "bytes \<Rightarrow> int32 \<Rightarrow> Point"
  NormPoint :: "bytes \<Rightarrow> Point \<Rightarrow> Point"
  NormLocation :: "bytes \<Rightarrow> Location \<Rightarrow> Location option"
  InSpanBounds :: "SpanKind \<Rightarrow> int32 \<Rightarrow> int32 \<Rightarrow> int32 \<Rightarrow> int32 \<Rightarrow> bool"
  ToUTF8 :: "string \<Rightarrow> bytes \<Rightarrow> string option"
  AnchorFile :: "ticket \<Rightarrow> ticket option"

text \<open>
  Modelled from the spec: \<^verbatim>\<open>xrefs.ConvertFilters\<close> and \<^verbatim>\<open>xrefs.MatchesAny\<close> (section 4.2).
  Each filter glob compiles to one matcher, so the pattern list is as long as the filter
  list and is represented by it; \<open>MatchesAny\<close> holds when some matcher matches the name.
\<close>

definition MatchesAny :: "lib \<Rightarrow> string \<Rightarrow> string list \<Rightarrow> bool" where
  "MatchesAny L name patterns = list_ex (\<lambda>p. FilterMatches L p name) patterns"

text \<open>The fact labels of package \<^verbatim>\<open>facts\<close>.\<close>

definition facts_prefix :: string where "facts_prefix = ''/kythe/''"
definition facts_AnchorEnd :: string where "facts_AnchorEnd = facts_prefix @ ''loc/end''"
definition facts_AnchorStart :: string where "facts_AnchorStart = facts_prefix @ ''loc/start''"
definition facts_NodeKind :: string where "facts_NodeKind = facts_prefix @ ''node/kind''"
definition facts_SnippetEnd :: string where "facts_SnippetEnd = facts_prefix @ ''snippet/end''"
definition facts_SnippetStart :: string where "facts_SnippetStart = facts_prefix @ ''snippet/start''"
definition facts_Text :: string where "facts_Text = facts_prefix @ ''text''"
definition facts_TextEncoding :: string where "facts_TextEncoding = facts_prefix @ ''text/encoding''"
definition DefaultTextEncoding :: string where "DefaultTextEncoding = ''UTF-8''"

section \<open>Go's built-in operations\<close>

text \<open>
  The conversion \<^verbatim>\<open>int32(x)\<close> of a Go \<^verbatim>\<open>int\<close> keeps the low 32 bits. A slice expression
  \<^verbatim>\<open>text[lo:hi]\<close> panics unless \<open>0 \<le> lo \<le> hi \<le> len(text)\<close> (the capacity of a text is
  taken to be its length). \<^verbatim>\<open>string(m[k])\<close> of a missing key is the empty string.
\<close>

definition int32 :: "int \<Rightarrow> int32" where
  "int32 x = word_of_int x"

definition slice :: "bytes \<Rightarrow> int32 \<Rightarrow> int32 \<Rightarrow> bytes option" where
  "slice text lo hi =
     (if 0 \<le> sint lo \<and> sint lo \<le> sint hi \<and> sint hi \<le> int (length text)
      then Some (take (nat (sint hi) - nat (sint lo)) (drop (nat (sint lo)) text))
      else None)"

definition fact :: "(string \<times> bytes) list \<Rightarrow> string \<Rightarrow> bytes" where
  "fact facts name = (case map_of facts name of None \<Rightarrow> [] | Some v \<Rightarrow> v)"

text \<open>
  \<^verbatim>\<open>strconv.Atoi\<close> of the Go standard library on a 64-bit platform: an optional sign, then
  one or more decimal digits, and a value that fits an \<^verbatim>\<open>int\<close>.
\<close>

definition digit_of :: "char \<Rightarrow> nat option" where
  "digit_of c =
     (let n = (of_char c :: nat) in if 48 \<le> n \<and> n \<le> 57 then Some (n - 48) else None)"

fun digits_value :: "string \<Rightarrow> nat \<Rightarrow> nat option" where
  "digits_value [] acc = Some acc"
| "digits_value (c # cs) acc =
     (case digit_of c of None \<Rightarrow> None | Some d \<Rightarrow> digits_value cs (10 * acc + d))"

definition Atoi :: "string \<Rightarrow> int option" where
  "Atoi s =
     (let (neg, ds) =
            (case s of
               [] \<Rightarrow> (False, [])
             | c # cs \<Rightarrow>
                 if c = CHR ''-'' then (True, cs)
                 else if c = CHR ''+'' then (False, cs)
                 else (False, s))
      in if ds = [] then None
         else (case digits_value ds 0 of
                 None \<Rightarrow> None
               | Some n \<Rightarrow>
                   (let v = (if neg then - int n else int n)
                    in if - (2 ^ 63) \<le> v \<and> v < 2 ^ 63 then Some v else None)))"

text \<open>
  A \<^verbatim>\<open>for ... range\<close> loop whose body may return an error: the body takes the element, the
  variables the loop updates and the store, and the loop stops at the first error.
\<close>

fun for_range ::
  "('x \<Rightarrow> 'a \<Rightarrow> 's \<Rightarrow> (error + 'a) \<times> 's) \<Rightarrow> 'x list \<Rightarrow> 'a \<Rightarrow> 's \<Rightarrow> (error + 'a) \<times> 's" where
  "for_range body [] a s = (Inr a, s)"
| "for_range body (x # xs) a s =
     (case body x a s of
        (Inl e, s') \<Rightarrow> (Inl e, s')
      | (Inr a', s') \<Rightarrow> for_range body xs a' s')"

text \<open>
  \<^verbatim>\<open>stringset.Set\<close> (a third-party package) is a list without repetitions; \<open>Add\<close>
  works on the nil set too.
\<close>

definition set_Add :: "string list \<Rightarrow> string list \<Rightarrow> string list" where
  "set_Add xs S = fold List.insert xs S"

section \<open>The graph store\<close>

text \<open>
  Modelled from the spec: \<^verbatim>\<open>graphstore.Service\<close> (section 6), an interface whose
  implementations are not in the sources. The store is the list of its entries in the
  order a scan delivers them, the log of the calls made on it, and the positions in that
  log of the calls that fail. \<open>Read\<close> with edge kind \<^verbatim>\<open>""\<close> delivers the node facts of the
  source, with \<^verbatim>\<open>"*"\<close> its node facts and all its edges, with any other kind the entries
  of exactly that kind. \<open>Scan\<close> delivers the entries the store held when the scan began.
  \<open>Write\<close> adds one entry per update. A failing call delivers nothing and writes nothing.

  The last field is not part of the store: it holds the lines the code writes with
  \<^verbatim>\<open>log.Printf\<close> and \<^verbatim>\<open>log.Println\<close>, each a format with its arguments, and is carried
  along with the store through every function.
\<close>

datatype call = ScanCall | ReadCall VName string | WriteCall VName

datatype logarg = ArgString string | ArgInt int | ArgVName VName | ArgError error

type_synonym logline = "string \<times> logarg list"

record store =
  entries :: "Entry list"
  calls :: "call list"
  faulty :: "nat list"
  log_lines :: "logline list"

definition log_Printf :: "string \<Rightarrow> logarg list \<Rightarrow> store \<Rightarrow> store" where
  "log_Printf format args s = s\<lparr>log_lines := log_lines s @ [(format, args)]\<rparr>"

record Update =
  UTarget :: VName
  UEdgeKind :: string
  UFactName :: string
  UFactValue :: bytes

definition IsEdge :: "Entry \<Rightarrow> bool" where
  "IsEdge e = (EdgeKind e \<noteq> [])"

definition fails :: "store \<Rightarrow> bool" where
  "fails s = (length (calls s) \<in> set (faulty s))"

definition logged :: "call \<Rightarrow> store \<Rightarrow> store" where
  "logged c s = s\<lparr>calls := calls s @ [c]\<rparr>"

definition read_match :: "VName \<Rightarrow> string \<Rightarrow> Entry \<Rightarrow> bool" where
  "read_match src kind e =
     (Source e = src \<and>
      (if kind = [] then EdgeKind e = []
       else if kind = ''*'' then True
       else EdgeKind e = kind))"

definition gs_Read :: "store \<Rightarrow> VName \<Rightarrow> string \<Rightarrow> (error + Entry list) \<times> store" where
  "gs_Read s src kind =
     (if fails s then (Inl StoreFailure, logged (ReadCall src kind) s)
      else (Inr (filter (read_match src kind) (entries s)), logged (ReadCall src kind) s))"

definition gs_Scan :: "store \<Rightarrow> (error + Entry list) \<times> store" where
  "gs_Scan s =
     (if fails s then (Inl StoreFailure, logged ScanCall s)
      else (Inr (entries s), logged ScanCall s))"

definition written :: "VName \<Rightarrow> Update \<Rightarrow> Entry" where
  "written src u =
     \<lparr>Source = src, EdgeKind = UEdgeKind u, Target = UTarget u,
      FactName = UFactName u, FactValue = UFactValue u\<rparr>"

definition gs_Write :: "store \<Rightarrow> VName \<Rightarrow> Update list \<Rightarrow> error option \<times> store" where
  "gs_Write s src us =
     (if fails s then (Some StoreFailure, logged (WriteCall src) s)
      else (None, logged (WriteCall src) (s\<lparr>entries := entries s @ map (written src) us\<rparr>)))"

section \<open>Nodes\<close>

record NodesRequest =
  NTicket :: "ticket list"
  NFilter :: "string list"

type_synonym Facts = "(string \<times> bytes) list"
type_synonym NodeMap = "(ticket \<times> Facts) list"

text \<open>The first loop of \<open>Nodes\<close>: every ticket is parsed before the store is read.\<close>

fun parse_tickets :: "lib \<Rightarrow> ticket list \<Rightarrow> error + VName list" where
  "parse_tickets L [] = Inr []"
| "parse_tickets L (t # ts) =
     (case ToVName L t of
        None \<Rightarrow> Inl (LibraryError ''kytheuri.ToVName'')
      | Some name \<Rightarrow>
          (case parse_tickets L ts of
             Inl e \<Rightarrow> Inl e
           | Inr names \<Rightarrow> Inr (name # names)))"

text \<open>The visitor of the read in \<open>Nodes\<close>, run over the entries delivered.\<close>

fun nodes_visit :: "lib \<Rightarrow> string list \<Rightarrow> Entry list \<Rightarrow> Facts \<Rightarrow> Facts" where
  "nodes_visit L patterns [] info = info"
| "nodes_visit L patterns (entry # es) info =
     nodes_visit L patterns es
       (if patterns = [] \<or> MatchesAny L (FactName entry) patterns
        then AList.update (FactName entry) (FactValue entry) info
        else info)"

fun nodes_loop ::
  "lib \<Rightarrow> string list \<Rightarrow> (ticket \<times> VName) list \<Rightarrow> NodeMap \<Rightarrow> store \<Rightarrow> (error + NodeMap) \<times> store" where
  "nodes_loop L patterns [] nodes s = (Inr nodes, s)"
| "nodes_loop L patterns ((ticket, vname) # rest) nodes s =
     (case gs_Read s vname [] of
        (Inl e, s') \<Rightarrow> (Inl e, s')
      | (Inr es, s') \<Rightarrow>
          (let info = nodes_visit L patterns es []
           in nodes_loop L patterns rest
                (if info \<noteq> [] then AList.update ticket info nodes else nodes) s'))"

definition Nodes :: "lib \<Rightarrow> NodesRequest \<Rightarrow> store \<Rightarrow> (error + NodeMap) \<times> store" where
  "Nodes L req s =
     (case parse_tickets L (NTicket req) of
        Inl e \<Rightarrow> (Inl e, s)
      | Inr names \<Rightarrow> nodes_loop L (NFilter req) (zip (NTicket req) names) [] s)"

section \<open>The reverse-edge bootstrap\<close>

text \<open>
  The visitor of \<open>addReverseEdges\<close>: one \<open>Write\<close> per forward edge of the scan, stopping
  at the first write that fails. The two counters are \<open>totalEntries\<close> and \<open>addedEdges\<close>;
  they are returned with the error too, for the log line that follows the scan.
\<close>

fun add_reverse :: "lib \<Rightarrow> Entry list \<Rightarrow> nat \<times> nat \<Rightarrow> store \<Rightarrow> error option \<times> (nat \<times> nat) \<times> store" where
  "add_reverse L [] counters s = (None, counters, s)"
| "add_reverse L (entry # es) (totalEntries, addedEdges) s =
     (let kind = EdgeKind entry in
      if kind \<noteq> [] \<and> IsForward L kind then
        (case gs_Write s (Target entry)
                [\<lparr>UTarget = Source entry, UEdgeKind = Mirror L kind,
                  UFactName = FactName entry, UFactValue = FactValue entry\<rparr>] of
           (Some err, s') \<Rightarrow>
             (Some (Wrapped ''Failed to write reverse edge'' err), (totalEntries, addedEdges), s')
         | (None, s') \<Rightarrow> add_reverse L es (Suc totalEntries, Suc addedEdges) s')
      else add_reverse L es (Suc totalEntries, addedEdges) s)"

text \<open>The elapsed time that the last log line also prints is left out.\<close>

definition addReverseEdges :: "lib \<Rightarrow> store \<Rightarrow> error option \<times> store" where
  "addReverseEdges L s =
     (case gs_Scan (log_Printf ''Adding reverse edges'' [] s) of
        (Inl err, s1) \<Rightarrow>
          (Some err,
           log_Printf ''Wrote %d reverse edges to GraphStore (%d total entries)''
             [ArgInt 0, ArgInt 0] s1)
      | (Inr es, s1) \<Rightarrow>
          (case add_reverse L es (0, 0) s1 of
             (err, (totalEntries, addedEdges), s2) \<Rightarrow>
               (err,
                log_Printf ''Wrote %d reverse edges to GraphStore (%d total entries)''
                  [ArgInt (int addedEdges), ArgInt (int totalEntries)] s2)))"

text \<open>
  The first scan stops (\<^verbatim>\<open>io.EOF\<close>) at the first entry that is an edge. The result is
  \<open>None\<close> for the \<^verbatim>\<open>nil\<close> error.
\<close>

definition EnsureReverseEdges :: "lib \<Rightarrow> store \<Rightarrow> error option \<times> store" where
  "EnsureReverseEdges L s =
     (case gs_Scan s of
        (Inl err, s1) \<Rightarrow> (Some err, s1)
      | (Inr es, s1) \<Rightarrow>
          (case find IsEdge es of
             None \<Rightarrow> (None, log_Printf ''No edges found in GraphStore'' [] s1)
           | Some edge \<Rightarrow>
               if IsReverse L (EdgeKind edge) then (None, s1)
               else
                 (case gs_Read s1 (Target edge) (Mirror L (EdgeKind edge)) of
                    (Inl err, s2) \<Rightarrow> (Some (Wrapped ''error checking for reverse edge'' err), s2)
                  | (Inr found, s2) \<Rightarrow>
                      if found \<noteq> [] then (None, s2) else addReverseEdges L s2)))"

section \<open>Edges\<close>

record EdgesRequest =
  ETicket :: "ticket list"
  EKind :: "string list"
  EFilter :: "string list"
  EPageSize :: int32
  EPageToken :: string

record Edge =
  TargetTicket :: ticket
  Ordinal :: int32

type_synonym Groups = "(string \<times> Edge list) list"

record EdgesReply =
  EdgeSets :: "(ticket \<times> Groups) list"
  ENodes :: NodeMap
  ENextPageToken :: string

text \<open>\<open>filteredEdges\<close>: edge kind to target ticket to set of ordinals.\<close>

type_synonym FilteredEdges = "(string \<times> (ticket \<times> int32 list) list) list"

text \<open>The visitor of the read in \<open>Edges\<close>.\<close>

definition edges_visit ::
  "lib \<Rightarrow> string list \<Rightarrow> string list \<Rightarrow> Entry \<Rightarrow> FilteredEdges \<times> Facts \<Rightarrow> FilteredEdges \<times> Facts" where
  "edges_visit L kinds patterns entry acc =
     (case acc of (filteredEdges, filteredFacts) \<Rightarrow>
        if EdgeKind entry = [] then
          (if patterns \<noteq> [] \<and> MatchesAny L (FactName entry) patterns
           then (filteredEdges, AList.update (FactName entry) (FactValue entry) filteredFacts)
           else (filteredEdges, filteredFacts))
        else
          (case ParseOrdinal L (EdgeKind entry) of (edgeKind, ordinal, hasOrdinal) \<Rightarrow>
             if kinds = [] \<or> edgeKind \<in> set kinds then
               (let targets = (case map_of filteredEdges edgeKind of None \<Rightarrow> [] | Some ts \<Rightarrow> ts);
                    ticket = ToString L (Target entry);
                    ordSet = (case map_of targets ticket of None \<Rightarrow> [] | Some ords \<Rightarrow> ords)
                in (AList.update edgeKind
                      (AList.update ticket (List.insert (int32 ordinal) ordSet) targets)
                      filteredEdges,
                    filteredFacts))
             else (filteredEdges, filteredFacts)))"

definition group_edges :: "(ticket \<times> int32 list) list \<Rightarrow> Edge list" where
  "group_edges targets =
     concat (map (\<lambda>(target, ordinals).
                    map (\<lambda>ordinal. \<lparr>TargetTicket = target, Ordinal = ordinal\<rparr>) ordinals) targets)"

definition build_groups :: "FilteredEdges \<Rightarrow> Groups" where
  "build_groups filteredEdges = map (\<lambda>(edgeKind, targets). (edgeKind, group_edges targets)) filteredEdges"

definition group_targets :: "FilteredEdges \<Rightarrow> ticket list" where
  "group_targets filteredEdges = concat (map (\<lambda>(edgeKind, targets). map fst targets) filteredEdges)"

text \<open>The body of the loop over the tickets of an \<open>Edges\<close> request.\<close>

definition edges_ticket ::
  "lib \<Rightarrow> EdgesRequest \<Rightarrow> ticket \<Rightarrow> (ticket \<times> Groups) list \<times> NodeMap \<times> string list \<Rightarrow> store
     \<Rightarrow> (error + (ticket \<times> Groups) list \<times> NodeMap \<times> string list) \<times> store" where
  "edges_ticket L req ticket acc s =
     (case acc of (edgeSets, nodes, targetSet) \<Rightarrow>
        (case ToVName L ticket of
           None \<Rightarrow> (Inl (Wrapped ''invalid ticket'' (LibraryError ''kytheuri.ToVName'')), s)
         | Some vname \<Rightarrow>
             (case gs_Read s vname ''*'' of
                (Inl err, s') \<Rightarrow> (Inl (Failure ''failed to retrieve entries for ticket''), s')
              | (Inr es, s') \<Rightarrow>
                  (case fold (edges_visit L (EKind req) (EFilter req)) es ([], []) of
                     (filteredEdges, filteredFacts) \<Rightarrow>
                       if filteredEdges \<noteq> [] then
                         (Inr (AList.update ticket (build_groups filteredEdges) edgeSets,
                               (if filteredFacts \<noteq> [] then AList.update ticket filteredFacts nodes
                                else nodes),
                               set_Add (group_targets filteredEdges) targetSet), s')
                       else (Inr (edgeSets, nodes, targetSet), s')))))"

definition merge_nodes :: "NodeMap \<Rightarrow> NodeMap \<Rightarrow> NodeMap" where
  "merge_nodes nodesReply nodes = fold (\<lambda>(ticket, node). AList.update ticket node) nodesReply nodes"

definition Edges :: "lib \<Rightarrow> EdgesRequest \<Rightarrow> store \<Rightarrow> (error + EdgesReply) \<times> store" where
  "Edges L req s =
     (if ETicket req = [] then (Inl (Failure ''no tickets specified''), s)
      else if EPageToken req \<noteq> [] then (Inl (Failure ''UNIMPLEMENTED: page_token''), s)
      else
        (case for_range (edges_ticket L req) (ETicket req) ([], [], []) s of
           (Inl err, s1) \<Rightarrow> (Inl err, s1)
         | (Inr (edgeSets, nodes, targetSet), s1) \<Rightarrow>
             if EFilter req \<noteq> [] then
               (case Nodes L \<lparr>NTicket = filter (\<lambda>t. map_of nodes t = None) targetSet,
                              NFilter = EFilter req\<rparr> s1 of
                  (Inl err, s2) \<Rightarrow> (Inl (Wrapped ''failure getting target nodes'' err), s2)
                | (Inr nodesReply, s2) \<Rightarrow>
                    (Inr \<lparr>EdgeSets = edgeSets, ENodes = merge_nodes nodesReply nodes,
                          ENextPageToken = []\<rparr>, s2))
             else (Inr \<lparr>EdgeSets = edgeSets, ENodes = nodes, ENextPageToken = []\<rparr>, s1)))"

section \<open>Decorations\<close>

record DecorationsRequest =
  DLocation :: "Location option"
  DSourceText :: bool
  DReferences :: bool
  DDirtyBuffer :: bytes
  DSpanKind :: SpanKind
  DFilter :: "string list"

record Reference =
  SourceTicket :: ticket
  RKind :: string
  RTargetTicket :: ticket
  AnchorStart :: Point
  AnchorEnd :: Point

record DecorationsReply =
  RLocation :: Location
  RSourceText :: bytes
  REncoding :: string
  RReference :: "Reference list"
  RNodes :: NodeMap

text \<open>
  \<open>getSourceText\<close>: the text is \<^verbatim>\<open>nil\<close> until a text fact is delivered; the value of a
  delivered fact is not \<^verbatim>\<open>nil\<close>.
\<close>

fun source_visit :: "Entry list \<Rightarrow> bytes option \<times> string \<Rightarrow> bytes option \<times> string" where
  "source_visit [] acc = acc"
| "source_visit (entry # es) (text, encoding) =
     source_visit es
       (if FactName entry = facts_Text then (Some (FactValue entry), encoding)
        else if FactName entry = facts_TextEncoding then (text, FactValue entry)
        else (text, encoding))"

definition getSourceText :: "store \<Rightarrow> VName \<Rightarrow> (error + bytes \<times> string) \<times> store" where
  "getSourceText s fileVName =
     (case gs_Read s fileVName [] of
        (Inl err, s') \<Rightarrow> (Inl (Wrapped ''read error'' err), s')
      | (Inr es, s') \<Rightarrow>
          (case source_visit es (None, []) of
             (None, encoding) \<Rightarrow> (Inl (Failure ''file not found''), s')
           | (Some text, encoding) \<Rightarrow> (Inr (text, encoding), s')))"

record edgeTarget =
  TKind :: string
  TTarget :: VName
  TOrdinal :: int32

definition getEdges ::
  "lib \<Rightarrow> store \<Rightarrow> VName \<Rightarrow> (Entry \<Rightarrow> bool) \<Rightarrow> (error + edgeTarget list) \<times> store" where
  "getEdges L s node pred =
     (case gs_Read s node ''*'' of
        (Inl err, s') \<Rightarrow> (Inl (Wrapped ''read error'' err), s')
      | (Inr es, s') \<Rightarrow>
          (Inr (map (\<lambda>entry.
                       case ParseOrdinal L (EdgeKind entry) of (edgeKind, ordinal, hasOrdinal) \<Rightarrow>
                         \<lparr>TKind = edgeKind, TTarget = Target entry, TOrdinal = int32 ordinal\<rparr>)
                    (filter (\<lambda>entry. IsEdge entry \<and> pred entry) es)), s'))"

definition filterNode :: "lib \<Rightarrow> string list \<Rightarrow> Facts \<Rightarrow> Facts option" where
  "filterNode L patterns node =
     (if patterns = [] then None
      else
        (let filteredFacts = filter (\<lambda>(name, value). MatchesAny L name patterns) node
         in if filteredFacts = [] then None else Some filteredFacts))"

text \<open>\<open>bySpan.Less\<close>; the comparisons are those of signed 32-bit integers.\<close>

definition Less :: "Reference \<Rightarrow> Reference \<Rightarrow> bool" where
  "Less a b =
     (if sint (ByteOffset (AnchorStart a)) < sint (ByteOffset (AnchorStart b)) then True
      else if sint (ByteOffset (AnchorStart a)) > sint (ByteOffset (AnchorStart b)) then False
      else if sint (ByteOffset (AnchorEnd a)) < sint (ByteOffset (AnchorEnd b)) then True
      else False)"

text \<open>
  \<^verbatim>\<open>sort.Sort\<close> of the Go standard library, as an insertion sort that compares with the
  \<open>Less\<close> it is given.
\<close>

fun insert_by :: "('a \<Rightarrow> 'a \<Rightarrow> bool) \<Rightarrow> 'a \<Rightarrow> 'a list \<Rightarrow> 'a list" where
  "insert_by lt x [] = [x]"
| "insert_by lt x (y # ys) = (if lt x y then x # y # ys else y # insert_by lt x ys)"

definition sort_Sort :: "('a \<Rightarrow> 'a \<Rightarrow> bool) \<Rightarrow> 'a list \<Rightarrow> 'a list" where
  "sort_Sort lt xs = foldr (insert_by lt) xs []"

text \<open>
  The span test of the loop over the children: the anchor goes on (\<open>InWindow\<close>), is
  skipped silently (\<open>Outside\<close>) or is skipped with a log line (\<open>Inverted\<close>). A span
  location without its points is a nil dereference.
\<close>

datatype window = InWindow | Outside | Inverted

definition span_check :: "lib \<Rightarrow> DecorationsRequest \<Rightarrow> Location \<Rightarrow> int \<Rightarrow> int \<Rightarrow> error + window" where
  "span_check L req loc anchorStart anchorEnd =
     (if LocKind loc = Location_SPAN then
        (case (LocStart loc, LocEnd loc) of
           (Some start, Some end) \<Rightarrow>
             if \<not> InSpanBounds L (DSpanKind req) (int32 anchorStart) (int32 anchorEnd)
                    (ByteOffset start) (ByteOffset end)
             then Inr Outside
             else if anchorStart > anchorEnd then Inr Inverted
             else Inr InWindow
         | _ \<Rightarrow> Inl (Panic ''nil pointer dereference''))
      else Inr InWindow)"

definition make_reference :: "lib \<Rightarrow> bytes \<Rightarrow> ticket \<Rightarrow> int \<Rightarrow> int \<Rightarrow> edgeTarget \<Rightarrow> Reference" where
  "make_reference L norm ticket anchorStart anchorEnd edge =
     \<lparr>SourceTicket = ticket, RKind = TKind edge, RTargetTicket = ToString L (TTarget edge),
      AnchorStart = NormByteOffset L norm (int32 anchorStart),
      AnchorEnd = NormByteOffset L norm (int32 anchorEnd)\<rparr>"

text \<open>The body of the loop over the children of the file.\<close>

definition decor_child ::
  "lib \<Rightarrow> DecorationsRequest \<Rightarrow> Location \<Rightarrow> bytes \<Rightarrow> edgeTarget
     \<Rightarrow> NodeMap \<times> Reference list \<times> string list \<Rightarrow> store
     \<Rightarrow> (error + NodeMap \<times> Reference list \<times> string list) \<times> store" where
  "decor_child L req loc norm edge acc s =
     (case acc of (nodes, reference, targetSet) \<Rightarrow>
       (let anchor = TTarget edge; ticket = ToString L anchor in
        case Nodes L \<lparr>NTicket = [ticket], NFilter = []\<rparr> s of
          (Inl err, s1) \<Rightarrow> (Inl (Wrapped ''failure getting reference source node'' err), s1)
        | (Inr anchorNodes, s1) \<Rightarrow>
            if length anchorNodes \<noteq> 1 then (Inl (Failure ''found n nodes''), s1)
            else
              (case map_of anchorNodes ticket of
                 None \<Rightarrow> (Inl (Failure ''failed to find info for node''), s1)
               | Some node \<Rightarrow>
                   if fact node facts_NodeKind \<noteq> nodes_Anchor L then (Inr acc, s1)
                   else
                     (case Atoi (fact node facts_AnchorStart) of
                        None \<Rightarrow>
                          (Inr acc,
                           log_Printf ''Invalid anchor start offset %q for node %q: %v''
                             [ArgString (fact node facts_AnchorStart), ArgString ticket,
                              ArgError (LibraryError ''strconv.Atoi'')] s1)
                      | Some anchorStart \<Rightarrow>
                          (case Atoi (fact node facts_AnchorEnd) of
                             None \<Rightarrow>
                               (Inr acc,
                                log_Printf ''Invalid anchor end offset %q for node %q: %v''
                                  [ArgString (fact node facts_AnchorEnd), ArgString ticket,
                                   ArgError (LibraryError ''strconv.Atoi'')] s1)
                           | Some anchorEnd \<Rightarrow>
                               (case span_check L req loc anchorStart anchorEnd of
                                  Inl err \<Rightarrow> (Inl err, s1)
                                | Inr Outside \<Rightarrow> (Inr acc, s1)
                                | Inr Inverted \<Rightarrow>
                                    (Inr acc,
                                     log_Printf ''Invalid anchor offset span %d:%d''
                                       [ArgInt anchorStart, ArgInt anchorEnd] s1)
                                | Inr InWindow \<Rightarrow>
                                    (case getEdges L s1 anchor
                                            (\<lambda>e. IsForward L (EdgeKind e) \<and> EdgeKind e \<noteq> edges_ChildOf L) of
                                       (Inl err, s2) \<Rightarrow>
                                         (Inl (Wrapped ''failed to retrieve targets of anchor'' err), s2)
                                     | (Inr targets, s2) \<Rightarrow>
                                         if targets = [] then
                                           (Inr acc,
                                            log_Printf ''Anchor missing forward edges: {%+v}''
                                              [ArgVName anchor] s2)
                                         else
                                           (Inr ((case filterNode L (DFilter req) node of
                                                    None \<Rightarrow> nodes
                                                  | Some n \<Rightarrow> AList.update ticket n nodes),
                                                 reference @ map (make_reference L norm ticket anchorStart anchorEnd) targets,
                                                 set_Add (map (\<lambda>e. ToString L (TTarget e)) targets) targetSet),
                                            s2))))))))"

text \<open>The part of \<open>Decorations\<close> under the \<^verbatim>\<open>References\<close> switch.\<close>

definition decor_references ::
  "lib \<Rightarrow> DecorationsRequest \<Rightarrow> VName \<Rightarrow> Location \<Rightarrow> bytes \<Rightarrow> store
     \<Rightarrow> (error + Reference list \<times> NodeMap) \<times> store" where
  "decor_references L req fileVName loc norm s =
     (case getEdges L s fileVName (\<lambda>e. EdgeKind e = Mirror L (edges_ChildOf L)) of
        (Inl err, s1) \<Rightarrow> (Inl (Wrapped ''failed to retrieve file children'' err), s1)
      | (Inr children, s1) \<Rightarrow>
          (case for_range (decor_child L req loc norm) children ([], [], []) s1 of
             (Inl err, s2) \<Rightarrow> (Inl err, s2)
           | (Inr (nodes, reference, targetSet), s2) \<Rightarrow>
               if DFilter req \<noteq> [] then
                 (case Nodes L \<lparr>NTicket = filter (\<lambda>t. map_of nodes t = None) targetSet,
                                NFilter = DFilter req\<rparr> s2 of
                    (Inl err, s3) \<Rightarrow> (Inl (Wrapped ''failure getting reference target nodes'' err), s3)
                  | (Inr nodesReply, s3) \<Rightarrow>
                      (Inr (sort_Sort Less reference, merge_nodes nodesReply nodes), s3))
               else (Inr (sort_Sort Less reference, nodes), s2)))"

text \<open>The part of \<open>Decorations\<close> under the \<^verbatim>\<open>SourceText\<close> switch: the text and the encoding.\<close>

definition decor_source_text ::
  "DecorationsRequest \<Rightarrow> Location \<Rightarrow> bytes \<Rightarrow> string \<Rightarrow> error + bytes \<times> string" where
  "decor_source_text req loc text encoding =
     (if DSourceText req then
        (if LocKind loc = Location_FILE then Inr (text, encoding)
         else
           (case (LocStart loc, LocEnd loc) of
              (Some start, Some end) \<Rightarrow>
                (case slice text (ByteOffset start) (ByteOffset end) of
                   None \<Rightarrow> Inl (Panic ''slice bounds out of range'')
                 | Some part \<Rightarrow> Inr (part, encoding))
            | _ \<Rightarrow> Inl (Panic ''nil pointer dereference'')))
      else Inr ([], []))"

definition Decorations ::
  "lib \<Rightarrow> DecorationsRequest \<Rightarrow> store \<Rightarrow> (error + DecorationsReply) \<times> store" where
  "Decorations L req s =
     (if DDirtyBuffer req \<noteq> [] then (Inl (Failure ''UNIMPLEMENTED: dirty buffers''), s)
      else
        (case DLocation req of
           None \<Rightarrow> (Inl (Failure ''missing location''), s)
         | Some location \<Rightarrow>
             (case ToVName L (LocTicket location) of
                None \<Rightarrow> (Inl (Wrapped ''invalid file ticket'' (LibraryError ''kytheuri.ToVName'')), s)
              | Some fileVName \<Rightarrow>
                  (case getSourceText s fileVName of
                     (Inl err, s1) \<Rightarrow> (Inl (Wrapped ''failed to retrieve file text'' err), s1)
                   | (Inr (text, encoding), s1) \<Rightarrow>
                       (case NormLocation L text location of
                          None \<Rightarrow> (Inl (LibraryError ''Normalizer.Location''), s1)
                        | Some loc \<Rightarrow>
                            (case decor_source_text req loc text encoding of
                               Inl err \<Rightarrow> (Inl err, s1)
                             | Inr (sourceText, enc) \<Rightarrow>
                                 if DReferences req then
                                   (case decor_references L req fileVName loc text s1 of
                                      (Inl err, s2) \<Rightarrow> (Inl err, s2)
                                    | (Inr (reference, nodes), s2) \<Rightarrow>
                                        (Inr \<lparr>RLocation = loc, RSourceText = sourceText,
                                              REncoding = enc, RReference = reference,
                                              RNodes = nodes\<rparr>, s2))
                                 else
                                   (Inr \<lparr>RLocation = loc, RSourceText = sourceText,
                                         REncoding = enc, RReference = [], RNodes = []\<rparr>, s1)))))))"

section \<open>CrossReferences\<close>

record CrossReferencesRequest =
  XTicket :: "ticket list"
  XDefinitionKind :: DefinitionKind
  XReferenceKind :: ReferenceKind
  XDocumentationKind :: DocumentationKind
  XAnchorText :: bool
  XFilter :: "string list"
  XPageSize :: int32
  XPageToken :: string

text \<open>
  \<^verbatim>\<open>xpb.Anchor\<close>. The points are pointers in the source; \<open>completeAnchors\<close> sets each
  of them before it returns the anchor.
\<close>

record Anchor =
  ATicket :: ticket
  AKind :: string
  AParent :: ticket
  AText :: string
  AStart :: Point
  AEnd :: Point
  ASnippet :: string
  ASnippetStart :: Point
  ASnippetEnd :: Point

record RelatedNode =
  RNTicket :: ticket
  RelationKind :: string
  RNOrdinal :: int32

record CrossReferenceSet =
  CTicket :: ticket
  Definition :: "Anchor list"
  CReference :: "Anchor list"
  Documentation :: "Anchor list"
  CRelatedNode :: "RelatedNode list"

text \<open>The \<open>Nodes\<close> map of the reply is \<^verbatim>\<open>nil\<close> (\<open>None\<close>) unless the request has a filter.\<close>

record CrossReferencesReply =
  XCrossReferences :: "(ticket \<times> CrossReferenceSet) list"
  XNodes :: "NodeMap option"
  XNextPageToken :: string

record fileNode =
  FText :: bytes
  FEncoding :: string

definition defaultXRefPageSize :: int where
  "defaultXRefPageSize = 1024"

definition edgeTickets :: "Edge list \<Rightarrow> ticket list" where
  "edgeTickets es = map TargetTicket es"

definition getSpan :: "Facts \<Rightarrow> string \<Rightarrow> string \<Rightarrow> error + int \<times> int" where
  "getSpan facts startFact endFact =
     (let start = fact facts startFact; end = fact facts endFact in
      if start = [] \<or> end = [] then Inl (Failure ''missing location facts'')
      else
        (case Atoi start of
           None \<Rightarrow> Inl (Failure ''error parsing start value'')
         | Some so \<Rightarrow>
             (case Atoi end of
                None \<Rightarrow> Inl (Failure ''error parsing end value'')
              | Some eo \<Rightarrow>
                  if so > eo then Inl (Failure ''invalid span'') else Inr (so, eo))))"

definition normalizeSpan :: "lib \<Rightarrow> bytes \<Rightarrow> int32 \<Rightarrow> int32 \<Rightarrow> Point \<times> Point \<times> error option" where
  "normalizeSpan L norm startOffset endOffset =
     (let start = NormByteOffset L norm startOffset;
          end = NormByteOffset L norm endOffset
      in (start, end,
          if ByteOffset start \<noteq> startOffset then Some (Failure ''inconsistent start location'')
          else if ByteOffset end \<noteq> endOffset then Some (Failure ''inconsistent end location'')
          else None))"

text \<open>\<^verbatim>\<open>text.ToUTF8\<close> with its error only logged: the string stays empty.\<close>

definition decoded :: "lib \<Rightarrow> string \<Rightarrow> string \<Rightarrow> bytes \<Rightarrow> store \<Rightarrow> string \<times> store" where
  "decoded L message encoding bs s =
     (case ToUTF8 L encoding bs of
        None \<Rightarrow> ([], log_Printf message [ArgError (LibraryError ''text.ToUTF8'')] s)
      | Some str \<Rightarrow> (str, s))"

text \<open>
  The file of an anchor: from the cache, or fetched with \<open>Nodes\<close> and cached. The reply
  of \<open>Nodes\<close> has no entry for a node without facts, and reading the facts of that
  \<^verbatim>\<open>nil\<close> entry is a nil dereference.
\<close>

definition fetch_file ::
  "lib \<Rightarrow> (ticket \<times> fileNode) list \<Rightarrow> ticket \<Rightarrow> store
     \<Rightarrow> (error + fileNode \<times> (ticket \<times> fileNode) list) \<times> store" where
  "fetch_file L files parent s =
     (case map_of files parent of
        Some file \<Rightarrow> (Inr (file, files), s)
      | None \<Rightarrow>
          (case Nodes L \<lparr>NTicket = [parent], NFilter = []\<rparr> s of
             (Inl err, s') \<Rightarrow> (Inl (Wrapped ''fetching file contents'' err), s')
           | (Inr rsp, s') \<Rightarrow>
               (case map_of rsp parent of
                  None \<Rightarrow> (Inl (Panic ''nil pointer dereference''), s')
                | Some info \<Rightarrow>
                    (let file = \<lparr>FText = fact info facts_Text,
                                  FEncoding = fact info facts_TextEncoding\<rparr>
                     in (Inr (file, AList.update parent file files), s')))))"

text \<open>The text spanned by the anchor, when it is asked for and the span is not empty.\<close>

definition anchor_text ::
  "lib \<Rightarrow> bool \<Rightarrow> fileNode \<Rightarrow> Point \<Rightarrow> Point \<Rightarrow> store \<Rightarrow> (error + string) \<times> store" where
  "anchor_text L retrieveText file start end s =
     (if retrieveText \<and> sint (ByteOffset start) < sint (ByteOffset end) then
        (case slice (FText file) (ByteOffset start) (ByteOffset end) of
           None \<Rightarrow> (Inl (Panic ''slice bounds out of range''), s)
         | Some bs \<Rightarrow>
             (case decoded L ''Error decoding anchor text: %v'' (FEncoding file) bs s of
                (str, s') \<Rightarrow> (Inr str, s')))
      else (Inr [], s))"

text \<open>
  The snippet the indexer provided: the snippet and its two points, or \<open>None\<close> when the
  anchor has no snippet span or the span does not fit the file.
\<close>

definition provided_snippet ::
  "lib \<Rightarrow> fileNode \<Rightarrow> ticket \<Rightarrow> ticket \<Rightarrow> Facts \<Rightarrow> store
     \<Rightarrow> (error + (string \<times> Point \<times> Point) option) \<times> store" where
  "provided_snippet L file ticket parent facts s =
     (case getSpan facts facts_SnippetStart facts_SnippetEnd of
        Inl err \<Rightarrow> (Inr None, s)
      | Inr (snipStart, snipEnd) \<Rightarrow>
          (case normalizeSpan L (FText file) (int32 snipStart) (int32 snipEnd) of
             (start, end, Some err) \<Rightarrow>
               (Inr None,
                log_Printf ''Invalid snippet span %q in file %q: %v''
                  [ArgString ticket, ArgString parent, ArgError err] s)
           | (start, end, None) \<Rightarrow>
               (case slice (FText file) (ByteOffset start) (ByteOffset end) of
                  None \<Rightarrow> (Inl (Panic ''slice bounds out of range''), s)
                | Some bs \<Rightarrow>
                    (case decoded L ''Error decoding snippet text: %v'' (FEncoding file) bs s of
                       (str, s') \<Rightarrow> (Inr (Some (str, start, end)), s')))))"

text \<open>The line-based snippet; the arithmetic is that of \<^verbatim>\<open>int32\<close>.\<close>

definition line_snippet ::
  "lib \<Rightarrow> fileNode \<Rightarrow> Point \<Rightarrow> store \<Rightarrow> (error + string \<times> Point \<times> Point) \<times> store" where
  "line_snippet L file start s =
     (let snippetStart = \<lparr>ByteOffset = ByteOffset start - ColumnOffset start,
                          LineNumber = LineNumber start, ColumnOffset = 0\<rparr>;
          nextLine = NormPoint L (FText file)
                       \<lparr>ByteOffset = 0, LineNumber = LineNumber start + 1, ColumnOffset = 0\<rparr>;
          snippetEnd = \<lparr>ByteOffset = ByteOffset nextLine - 1,
                        LineNumber = LineNumber start,
                        ColumnOffset = ColumnOffset start
                                         + (ByteOffset nextLine - ByteOffset start - 1)\<rparr>
      in case slice (FText file) (ByteOffset snippetStart) (ByteOffset snippetEnd) of
           None \<Rightarrow> (Inl (Panic ''slice bounds out of range''), s)
         | Some bs \<Rightarrow>
             (case decoded L ''Error decoding snippet text: %v'' (FEncoding file) bs s of
                (str, s') \<Rightarrow> (Inr (str, snippetStart, snippetEnd), s')))"

text \<open>The snippet of an anchor: the provided one, or the line-based one when that is empty.\<close>

definition anchor_snippet ::
  "lib \<Rightarrow> fileNode \<Rightarrow> ticket \<Rightarrow> ticket \<Rightarrow> Facts \<Rightarrow> Point \<Rightarrow> store
     \<Rightarrow> (error + string \<times> Point \<times> Point) \<times> store" where
  "anchor_snippet L file ticket parent facts start s =
     (case provided_snippet L file ticket parent facts s of
        (Inl err, s') \<Rightarrow> (Inl err, s')
      | (Inr (Some (snippet, snippetStart, snippetEnd)), s') \<Rightarrow>
          if snippet = [] then line_snippet L file start s'
          else (Inr (snippet, snippetStart, snippetEnd), s')
      | (Inr None, s') \<Rightarrow> line_snippet L file start s')"

text \<open>The body of the loop of \<open>completeAnchors\<close> over the nodes of the reply.\<close>

definition complete_anchor ::
  "lib \<Rightarrow> bool \<Rightarrow> string \<Rightarrow> (ticket \<times> ticket) list \<Rightarrow> ticket \<times> Facts
     \<Rightarrow> Anchor list \<times> (ticket \<times> fileNode) list \<Rightarrow> store
     \<Rightarrow> (error + Anchor list \<times> (ticket \<times> fileNode) list) \<times> store" where
  "complete_anchor L retrieveText edgeKind parents node acc s =
     (case (node, acc) of ((ticket, info), (result, files)) \<Rightarrow>
        (case getSpan info facts_AnchorStart facts_AnchorEnd of
           Inl err \<Rightarrow>
             (Inr (result, files),
              log_Printf ''Invalid anchor span for %q: %v'' [ArgString ticket, ArgError err] s)
         | Inr (start, end) \<Rightarrow>
             (let parent = fact parents ticket in
              case fetch_file L files parent s of
                (Inl err, s1) \<Rightarrow> (Inl err, s1)
              | (Inr (file, files'), s1) \<Rightarrow>
                  (case normalizeSpan L (FText file) (int32 start) (int32 end) of
                     (aStart, aEnd, Some err) \<Rightarrow>
                       (Inr (result, files'),
                        log_Printf ''Invalid anchor span %q in file %q: %v''
                          [ArgString ticket, ArgString parent, ArgError err] s1)
                   | (aStart, aEnd, None) \<Rightarrow>
                       (case anchor_text L retrieveText file aStart aEnd s1 of
                          (Inl err, s2) \<Rightarrow> (Inl err, s2)
                        | (Inr text, s2) \<Rightarrow>
                            (case anchor_snippet L file ticket parent info aStart s2 of
                               (Inl err, s3) \<Rightarrow> (Inl err, s3)
                             | (Inr (snippet, snippetStart, snippetEnd), s3) \<Rightarrow>
                                 (Inr (result @
                                         [\<lparr>ATicket = ticket, AKind = edgeKind, AParent = parent,
                                           AText = text, AStart = aStart, AEnd = aEnd,
                                           ASnippet = snippet, ASnippetStart = snippetStart,
                                           ASnippetEnd = snippetEnd\<rparr>],
                                       files'), s3)))))))"

text \<open>The first loop of \<open>completeAnchors\<close>: the parent file of every anchor.\<close>

fun anchor_parents :: "lib \<Rightarrow> ticket list \<Rightarrow> (ticket \<times> ticket) list \<Rightarrow> error + (ticket \<times> ticket) list" where
  "anchor_parents L [] parents = Inr parents"
| "anchor_parents L (anchor # rest) parents =
     (case AnchorFile L anchor of
        None \<Rightarrow> Inl (Wrapped ''invalid anchor'' (LibraryError ''tickets.AnchorFile''))
      | Some file \<Rightarrow> anchor_parents L rest (AList.update anchor file parents))"

definition completeAnchors ::
  "lib \<Rightarrow> bool \<Rightarrow> (ticket \<times> fileNode) list \<Rightarrow> string \<Rightarrow> ticket list \<Rightarrow> store
     \<Rightarrow> (error + Anchor list \<times> (ticket \<times> fileNode) list) \<times> store" where
  "completeAnchors L retrieveText files edgeKind anchors s =
     (case anchor_parents L anchors [] of
        Inl err \<Rightarrow> (Inl err, s)
      | Inr parents \<Rightarrow>
          (case Nodes L \<lparr>NTicket = anchors,
                         NFilter = [schema_AnchorLocFilter L, schema_SnippetLocFilter L]\<rparr> s of
             (Inl err, s1) \<Rightarrow> (Inl err, s1)
           | (Inr reply, s1) \<Rightarrow>
               for_range (complete_anchor L retrieveText (Canonical L edgeKind) parents)
                 reply ([], files) s1))"

text \<open>
  The loop variables of \<open>CrossReferences\<close> that the loop over the groups of one source
  updates: the set under construction, \<open>count\<close>, the file cache and \<open>allRelatedNodes\<close>.
\<close>

type_synonym group_state = "CrossReferenceSet \<times> nat \<times> (ticket \<times> fileNode) list \<times> string list"

definition related_node :: "string \<Rightarrow> Edge \<Rightarrow> RelatedNode" where
  "related_node kind edge =
     \<lparr>RNTicket = TargetTicket edge, RelationKind = kind, RNOrdinal = Ordinal edge\<rparr>"

text \<open>The \<^verbatim>\<open>switch\<close> on the kind of a group.\<close>

definition xref_group ::
  "lib \<Rightarrow> CrossReferencesRequest \<Rightarrow> string \<times> Edge list \<Rightarrow> group_state \<Rightarrow> store
     \<Rightarrow> (error + group_state) \<times> store" where
  "xref_group L req g acc s =
     (case (g, acc) of ((kind, grp), (xr, count, files, allRelatedNodes)) \<Rightarrow>
        if IsDefKind L (XDefinitionKind req) kind False then
          (case completeAnchors L (XAnchorText req) files kind (edgeTickets grp) s of
             (Inl err, s') \<Rightarrow> (Inl (Wrapped ''error resolving definition anchors'' err), s')
           | (Inr (anchors, files'), s') \<Rightarrow>
               (Inr (xr\<lparr>Definition := Definition xr @ anchors\<rparr>,
                     count + length anchors, files', allRelatedNodes), s'))
        else if IsRefKind L (XReferenceKind req) kind then
          (case completeAnchors L (XAnchorText req) files kind (edgeTickets grp) s of
             (Inl err, s') \<Rightarrow> (Inl (Wrapped ''error resolving reference anchors'' err), s')
           | (Inr (anchors, files'), s') \<Rightarrow>
               (Inr (xr\<lparr>CReference := CReference xr @ anchors\<rparr>,
                     count + length anchors, files', allRelatedNodes), s'))
        else if IsDocKind L (XDocumentationKind req) kind then
          (case completeAnchors L (XAnchorText req) files kind (edgeTickets grp) s of
             (Inl err, s') \<Rightarrow> (Inl (Wrapped ''error resolving documentation anchors'' err), s')
           | (Inr (anchors, files'), s') \<Rightarrow>
               (Inr (xr\<lparr>Documentation := Documentation xr @ anchors\<rparr>,
                     count + length anchors, files', allRelatedNodes), s'))
        else if allRelatedNodes \<noteq> [] \<and> \<not> IsAnchorEdge L kind then
          (Inr (xr\<lparr>CRelatedNode := CRelatedNode xr @ map (related_node kind) grp\<rparr>,
                count + length grp, files,
                set_Add (map TargetTicket grp) allRelatedNodes), s)
        else (Inr (xr, count, files, allRelatedNodes), s))"

text \<open>
  The loop variables that the loop over the sources updates: the cross-references of
  the reply, \<open>totalXRefs\<close>, the file cache and \<open>allRelatedNodes\<close>.
\<close>

type_synonym xref_state =
  "(ticket \<times> CrossReferenceSet) list \<times> nat \<times> (ticket \<times> fileNode) list \<times> string list"

definition xref_source ::
  "lib \<Rightarrow> CrossReferencesRequest \<Rightarrow> ticket \<times> Groups \<Rightarrow> xref_state \<Rightarrow> store
     \<Rightarrow> (error + xref_state) \<times> store" where
  "xref_source L req es acc s =
     (case (es, acc) of ((source, groups), (crossReferences, totalXRefs, files, allRelatedNodes)) \<Rightarrow>
        (let xr = (case map_of crossReferences source of
                     Some x \<Rightarrow> x
                   | None \<Rightarrow> \<lparr>CTicket = source, Definition = [], CReference = [],
                               Documentation = [], CRelatedNode = []\<rparr>)
         in case for_range (xref_group L req) groups (xr, 0, files, allRelatedNodes) s of
              (Inl err, s') \<Rightarrow> (Inl err, s')
            | (Inr (xr', count, files', allRelatedNodes'), s') \<Rightarrow>
                if count > 0 then
                  (Inr (AList.update (CTicket xr') xr' crossReferences, totalXRefs + count,
                        files', allRelatedNodes'), s')
                else (Inr (crossReferences, totalXRefs, files', allRelatedNodes'), s')))"

definition page_request :: "CrossReferencesRequest \<Rightarrow> string \<Rightarrow> EdgesRequest" where
  "page_request req pageToken =
     \<lparr>ETicket = XTicket req, EKind = [], EFilter = [],
      EPageSize = int32 (if sint (XPageSize req) = 0 then defaultXRefPageSize
                         else sint (XPageSize req)),
      EPageToken = pageToken\<rparr>"

text \<open>
  The unbounded \<^verbatim>\<open>for\<close> loop of \<open>CrossReferences\<close>: it goes round again only after an
  \<open>Edges\<close> call with a page token that is not empty has returned a reply.
\<close>

function xref_pages ::
  "lib \<Rightarrow> CrossReferencesRequest \<Rightarrow> EdgesReply \<Rightarrow> string \<Rightarrow> xref_state \<Rightarrow> store
     \<Rightarrow> (error + xref_state \<times> string) \<times> store" where
  "xref_pages L req eReply nextPageToken acc s =
     (case for_range (xref_source L req) (EdgeSets eReply) acc s of
        (Inl err, s1) \<Rightarrow> (Inl err, s1)
      | (Inr acc', s1) \<Rightarrow>
          if nextPageToken = [] \<or> fst (snd acc') > 0 then (Inr (acc', nextPageToken), s1)
          else
            (case Edges L (page_request req nextPageToken)
                    (log_Printf ''Extra CrossReferences Edges call: '' [ArgString nextPageToken] s1) of
               (Inl err, s2) \<Rightarrow> (Inl (Wrapped ''error getting edges for cross-references'' err), s2)
             | (Inr eReply', s2) \<Rightarrow>
                 xref_pages L req eReply' (ENextPageToken eReply') acc' s2))"
  by pat_completeness auto
termination
proof (relation "{}")
  show "wf {}" by simp
next
  fix L req and eReply :: EdgesReply and nextPageToken :: string and acc :: xref_state
    and s s1 ya :: store and x1a :: xref_state and x2b :: EdgesReply and xa
  assume "\<not> (nextPageToken = [] \<or> 0 < fst (snd x1a))"
    and "(xa, ya) = Edges L (page_request req nextPageToken)
           (log_Printf ''Extra CrossReferences Edges call: '' [ArgString nextPageToken] s1)"
    and "xa = Inr x2b"
  then have False
    by (auto simp: Edges_def page_request_def split: if_splits)
  then show "((L, req, x2b, ENextPageToken x2b, x1a, ya), L, req, eReply, nextPageToken, acc, s) \<in> {}" ..
qed

definition CrossReferences ::
  "lib \<Rightarrow> CrossReferencesRequest \<Rightarrow> store \<Rightarrow> (error + CrossReferencesReply) \<times> store" where
  "CrossReferences L req s =
     (if XTicket req = [] then (Inl (Failure ''no cross-references requested''), s)
      else
        (case Edges L (page_request req (XPageToken req)) s of
           (Inl err, s1) \<Rightarrow> (Inl (Wrapped ''error getting edges for cross-references'' err), s1)
         | (Inr eReply, s1) \<Rightarrow>
             (let nodes = (if XFilter req \<noteq> [] then Some [] else None) in
              case xref_pages L req eReply (ENextPageToken eReply) ([], 0, [], []) s1 of
                (Inl err, s2) \<Rightarrow> (Inl err, s2)
              | (Inr ((crossReferences, totalXRefs, files, allRelatedNodes), nextPageToken), s2) \<Rightarrow>
                  if allRelatedNodes \<noteq> [] then
                    (case Nodes L \<lparr>NTicket = allRelatedNodes, NFilter = XFilter req\<rparr> s2 of
                       (Inl err, s3) \<Rightarrow> (Inl (Wrapped ''error retrieving related nodes'' err), s3)
                     | (Inr nReply, s3) \<Rightarrow>
                         (case nodes of
                            None \<Rightarrow>
                              if nReply = []
                              then (Inr \<lparr>XCrossReferences = crossReferences, XNodes = None,
                                         XNextPageToken = nextPageToken\<rparr>, s3)
                              else (Inl (Panic ''assignment to entry in nil map''), s3)
                          | Some m \<Rightarrow>
                              (Inr \<lparr>XCrossReferences = crossReferences,
                                    XNodes = Some (merge_nodes nReply m),
                                    XNextPageToken = nextPageToken\<rparr>, s3)))
                  else
                    (Inr \<lparr>XCrossReferences = crossReferences, XNodes = nodes,
                          XNextPageToken = nextPageToken\<rparr>, s2))))"

section \<open>A concrete instance of the helper packages\<close>

text \<open>
  The theorems below hold for every \<open>lib\<close>. The concrete examples run the code on the
  instance \<open>lib0\<close>, whose fields follow what the specification says of each helper.
\<close>

text \<open>
  Modelled from the spec: \<^verbatim>\<open>kytheuri.ToString\<close> and \<^verbatim>\<open>kytheuri.ToVName\<close> (section 6),
  for the tickets \<^verbatim>\<open>kythe:?path=P#S\<close> that name a path and a signature; either part may
  be missing, and every other string is rejected as malformed.
\<close>

definition uri_ToString :: "VName \<Rightarrow> ticket" where
  "uri_ToString v =
     (case v of VName signature corpus root path language \<Rightarrow>
        ''kythe:'' @ (if path = [] then [] else ''?path='' @ path)
                  @ (if signature = [] then [] else ''#'' @ signature))"

definition uri_ToVName :: "ticket \<Rightarrow> VName option" where
  "uri_ToVName t =
     (if take 6 t = ''kythe:'' then
        (let rest = drop 6 t;
             query = takeWhile (\<lambda>c. c \<noteq> CHR ''#'') rest;
             signature = drop (length query + 1) rest
         in if query = [] then Some (VName signature [] [] [] [])
            else if take 6 query = ''?path='' then Some (VName signature [] [] (drop 6 query) [])
            else None)
      else None)"

text \<open>
  Modelled from the spec: \<^verbatim>\<open>tickets.AnchorFile\<close> (section 4.8, step 1): the ticket of the
  anchor without its signature.
\<close>

definition tickets_AnchorFile :: "ticket \<Rightarrow> ticket option" where
  "tickets_AnchorFile anchor =
     (case uri_ToVName anchor of
        None \<Rightarrow> None
      | Some (VName signature corpus root path language) \<Rightarrow>
          Some (uri_ToString (VName [] corpus root path [])))"

text \<open>
  Modelled from the spec: the matcher compiled from a filter glob (section 4.2):
  \<^verbatim>\<open>*\<close> is any run of characters other than \<^verbatim>\<open>/\<close>, \<^verbatim>\<open>?\<close> is one such character, and
  every other character stands for itself.
\<close>

fun glob :: "string \<Rightarrow> string \<Rightarrow> bool" where
  "glob [] name = (name = [])"
| "glob (p # ps) name =
     (if p = CHR ''*'' then
        (glob ps name \<or>
         (case name of [] \<Rightarrow> False | c # cs \<Rightarrow> c \<noteq> CHR ''/'' \<and> glob (p # ps) cs))
      else
        (case name of
           [] \<Rightarrow> False
         | c # cs \<Rightarrow> (if p = CHR ''?'' then c \<noteq> CHR ''/'' else c = p) \<and> glob ps cs))"

text \<open>
  Modelled from the spec: package \<^verbatim>\<open>edges\<close> (sections 3 and 6). A reverse kind carries
  the marker \<^verbatim>\<open>%\<close> in front, \<open>Mirror\<close> toggles the marker, \<open>Canonical\<close> removes it, and an
  ordinal is a suffix \<^verbatim>\<open>.N\<close> of decimal digits. The anchor-edge kinds are the variants of
  \<^verbatim>\<open>defines\<close>, \<^verbatim>\<open>ref\<close> and \<^verbatim>\<open>documents\<close>.
\<close>

definition edges_IsReverse :: "string \<Rightarrow> bool" where
  "edges_IsReverse kind = (take 1 kind = ''%'')"

definition edges_IsForward :: "string \<Rightarrow> bool" where
  "edges_IsForward kind = (\<not> edges_IsReverse kind)"

definition edges_Mirror :: "string \<Rightarrow> string" where
  "edges_Mirror kind = (if edges_IsReverse kind then drop 1 kind else ''%'' @ kind)"

definition edges_Canonical :: "string \<Rightarrow> string" where
  "edges_Canonical kind = (if edges_IsReverse kind then drop 1 kind else kind)"

definition edges_ParseOrdinal :: "string \<Rightarrow> string \<times> int \<times> bool" where
  "edges_ParseOrdinal kind =
     (let suffix = rev (takeWhile (\<lambda>c. c \<noteq> CHR ''.'') (rev kind)) in
      if suffix \<noteq> [] \<and> length suffix < length kind then
        (case digits_value suffix 0 of
           None \<Rightarrow> (kind, 0, False)
         | Some n \<Rightarrow> (take (length kind - length suffix - 1) kind, int n, True))
      else (kind, 0, False))"

definition has_prefix :: "string \<Rightarrow> string \<Rightarrow> bool" where
  "has_prefix p str = (take (length p) str = p)"

definition edges_IsVariant :: "string \<Rightarrow> string \<Rightarrow> bool" where
  "edges_IsVariant kind base = (kind = base \<or> has_prefix (base @ ''/'') kind)"

definition edges_IsAnchorEdge :: "string \<Rightarrow> bool" where
  "edges_IsAnchorEdge kind =
     (let k = edges_Canonical kind in
      edges_IsVariant k ''/kythe/edge/defines'' \<or> edges_IsVariant k ''/kythe/edge/ref''
        \<or> edges_IsVariant k ''/kythe/edge/documents'')"

text \<open>
  Modelled from the spec: \<^verbatim>\<open>xrefs.IsDefKind\<close>, \<^verbatim>\<open>xrefs.IsRefKind\<close> and
  \<^verbatim>\<open>xrefs.IsDocKind\<close> (section 4.7, step 2), on the canonical edge kind.
\<close>

definition xrefs_IsDefKind :: "DefinitionKind \<Rightarrow> string \<Rightarrow> bool \<Rightarrow> bool" where
  "xrefs_IsDefKind requested kind incomplete =
     (let k = edges_Canonical kind in
      case requested of
        NO_DEFINITIONS \<Rightarrow> False
      | ALL_DEFINITIONS \<Rightarrow> edges_IsVariant k ''/kythe/edge/defines''
      | FULL_DEFINITIONS \<Rightarrow> k = ''/kythe/edge/defines''
      | BINDING_DEFINITIONS \<Rightarrow> k = ''/kythe/edge/defines/binding'')"

definition xrefs_IsRefKind :: "ReferenceKind \<Rightarrow> string \<Rightarrow> bool" where
  "xrefs_IsRefKind requested kind =
     (let k = edges_Canonical kind in
      case requested of
        NO_REFERENCES \<Rightarrow> False
      | CALL_REFERENCES \<Rightarrow> k = ''/kythe/edge/ref/call''
      | NON_CALL_REFERENCES \<Rightarrow> k \<noteq> ''/kythe/edge/ref/call'' \<and> edges_IsVariant k ''/kythe/edge/ref''
      | ALL_REFERENCES \<Rightarrow> edges_IsVariant k ''/kythe/edge/ref'')"

definition xrefs_IsDocKind :: "DocumentationKind \<Rightarrow> string \<Rightarrow> bool" where
  "xrefs_IsDocKind requested kind =
     (case requested of
        NO_DOCUMENTATION \<Rightarrow> False
      | ALL_DOCUMENTATION \<Rightarrow> edges_Canonical kind = ''/kythe/edge/documents'')"

text \<open>
  Modelled from the spec: the Normalizer (section 4.1). \<open>ByteOffset\<close> clamps the offset
  to the text, the line is one more than the number of newlines before the offset, and
  the column is the distance to the start of that line. \<open>Point\<close> completes a point from
  its byte offset when that is positive, else from its line and column, else it is the
  start of the text. \<open>Location\<close> keeps a file location and completes the two points of a
  span, which must be present and in order.
\<close>

definition norm_ByteOffset :: "bytes \<Rightarrow> int32 \<Rightarrow> Point" where
  "norm_ByteOffset text offset =
     (let n = (if sint offset < 0 then 0 else min (nat (sint offset)) (length text));
          seen = take n text
      in \<lparr>ByteOffset = of_nat n,
          LineNumber = of_nat (Suc (length (filter (\<lambda>c. c = CHR 0x0A) seen))),
          ColumnOffset = of_nat (length (takeWhile (\<lambda>c. c \<noteq> CHR 0x0A) (rev seen)))\<rparr>)"

fun line_start :: "bytes \<Rightarrow> nat \<Rightarrow> nat" where
  "line_start text 0 = 0"
| "line_start [] (Suc n) = 0"
| "line_start (c # cs) (Suc n) =
     Suc (if c = CHR 0x0A then line_start cs n else line_start cs (Suc n))"

definition norm_Point :: "bytes \<Rightarrow> Point \<Rightarrow> Point" where
  "norm_Point text p =
     (if 0 < sint (ByteOffset p) then norm_ByteOffset text (ByteOffset p)
      else if 0 < sint (LineNumber p) then
        norm_ByteOffset text
          (of_nat (line_start text (nat (sint (LineNumber p)) - 1)) + ColumnOffset p)
      else \<lparr>ByteOffset = 0, LineNumber = 1, ColumnOffset = 0\<rparr>)"

definition norm_Location :: "bytes \<Rightarrow> Location \<Rightarrow> Location option" where
  "norm_Location text loc =
     (if LocKind loc = Location_FILE then
        Some \<lparr>LocTicket = LocTicket loc, LocKind = Location_FILE, LocStart = None, LocEnd = None\<rparr>
      else
        (case (LocStart loc, LocEnd loc) of
           (Some start, Some end) \<Rightarrow>
             (let start' = norm_Point text start; end' = norm_Point text end in
              if sint (ByteOffset end') < sint (ByteOffset start') then None
              else Some \<lparr>LocTicket = LocTicket loc, LocKind = Location_SPAN,
                         LocStart = Some start', LocEnd = Some end'\<rparr>)
         | _ \<Rightarrow> None))"

text \<open>
  Modelled from the spec: \<^verbatim>\<open>xrefs.InSpanBounds\<close> (section 4.6, step 4c): an anchor is
  within the window when the window contains it, around it when it contains the window.
\<close>

definition xrefs_InSpanBounds :: "SpanKind \<Rightarrow> int32 \<Rightarrow> int32 \<Rightarrow> int32 \<Rightarrow> int32 \<Rightarrow> bool" where
  "xrefs_InSpanBounds kind start end startBoundary endBoundary =
     (case kind of
        WITHIN_SPAN \<Rightarrow> sint startBoundary \<le> sint start \<and> sint end \<le> sint endBoundary
      | AROUND_SPAN \<Rightarrow> sint start \<le> sint startBoundary \<and> sint endBoundary \<le> sint end)"

text \<open>
  Modelled from the spec: \<^verbatim>\<open>text.ToUTF8\<close> (section 4.8): text in the default encoding is
  its own decoding; no other encoding is known to this instance.
\<close>

definition text_ToUTF8 :: "string \<Rightarrow> bytes \<Rightarrow> string option" where
  "text_ToUTF8 encoding bs =
     (if encoding = [] \<or> encoding = DefaultTextEncoding then Some bs else None)"

definition lib0 :: lib where
  "lib0 =
     \<lparr>ToVName = uri_ToVName, ToString = uri_ToString, FilterMatches = glob,
      ParseOrdinal = edges_ParseOrdinal, IsForward = edges_IsForward,
      IsReverse = edges_IsReverse, Mirror = edges_Mirror, Canonical = edges_Canonical,
      IsAnchorEdge = edges_IsAnchorEdge, edges_ChildOf = ''/kythe/edge/childof'',
      nodes_Anchor = ''anchor'', schema_AnchorLocFilter = ''/kythe/loc/*'',
      schema_SnippetLocFilter = ''/kythe/snippet/*'', IsDefKind = xrefs_IsDefKind,
      IsRefKind = xrefs_IsRefKind, IsDocKind = xrefs_IsDocKind,
      NormByteOffset = norm_ByteOffset, NormPoint = norm_Point, NormLocation = norm_Location,
      InSpanBounds = xrefs_InSpanBounds, ToUTF8 = text_ToUTF8, AnchorFile = tickets_AnchorFile\<rparr>"

text \<open>A store with the given entries, no call made yet and no call that fails.\<close>

definition store_of :: "Entry list \<Rightarrow> store" where
  "store_of es = \<lparr>entries = es, calls = [], faulty = [], log_lines = []\<rparr>"

definition node_fact :: "VName \<Rightarrow> string \<Rightarrow> bytes \<Rightarrow> Entry" where
  "node_fact v name val =
     \<lparr>Source = v, EdgeKind = [], Target = VName [] [] [] [] [], FactName = name, FactValue = val\<rparr>"

definition edge_entry :: "VName \<Rightarrow> string \<Rightarrow> VName \<Rightarrow> Entry" where
  "edge_entry v kind t =
     \<lparr>Source = v, EdgeKind = kind, Target = t, FactName = ''/'', FactValue = []\<rparr>"

section \<open>Concrete stores and requests\<close>

text \<open>A node with three facts and a node with one, asked for with a filter on the node kind.\<close>

definition vT :: VName where "vT = VName ''t'' [] [] [] []"
definition vU :: VName where "vU = VName ''u'' [] [] [] []"

definition store3 :: store where
  "store3 = store_of
     [node_fact vT ''/kythe/node/kind'' ''function'',
      node_fact vT ''/kythe/loc/start'' ''0'',
      node_fact vT ''/kythe/loc/end'' ''5'',
      node_fact vU ''/kythe/loc/end'' ''5'']"

definition req3 :: NodesRequest where
  "req3 = \<lparr>NTicket = [''kythe:#t'', ''kythe:#u''], NFilter = [''/kythe/node/*'']\<rparr>"

text \<open>
  A file of two lines with two anchors, each with one reference edge (scenario S4 of the
  specification), and a request for its text and its references.
\<close>

definition vF :: VName where "vF = VName [] [] [] ''f'' []"
definition vA1 :: VName where "vA1 = VName ''a1'' [] [] ''f'' []"
definition vA2 :: VName where "vA2 = VName ''a2'' [] [] ''f'' []"
definition vX :: VName where "vX = VName ''x'' [] [] [] []"
definition vY :: VName where "vY = VName ''y'' [] [] [] []"

definition store4 :: store where
  "store4 = store_of
     [node_fact vF ''/kythe/node/kind'' ''file'',
      node_fact vF ''/kythe/text'' ''abc\<newline>def\<newline>'',
      edge_entry vF ''%/kythe/edge/childof'' vA1,
      edge_entry vF ''%/kythe/edge/childof'' vA2,
      node_fact vA1 ''/kythe/node/kind'' ''anchor'',
      node_fact vA1 ''/kythe/loc/start'' ''4'',
      node_fact vA1 ''/kythe/loc/end'' ''7'',
      edge_entry vA1 ''/kythe/edge/childof'' vF,
      edge_entry vA1 ''/kythe/edge/ref'' vX,
      node_fact vA2 ''/kythe/node/kind'' ''anchor'',
      node_fact vA2 ''/kythe/loc/start'' ''0'',
      node_fact vA2 ''/kythe/loc/end'' ''3'',
      edge_entry vA2 ''/kythe/edge/childof'' vF,
      edge_entry vA2 ''/kythe/edge/ref'' vY,
      edge_entry vX ''%/kythe/edge/ref'' vA1,
      edge_entry vY ''%/kythe/edge/ref'' vA2]"

definition req4 :: DecorationsRequest where
  "req4 = \<lparr>DLocation = Some \<lparr>LocTicket = ''kythe:?path=f'', LocKind = Location_FILE,
                               LocStart = None, LocEnd = None\<rparr>,
            DSourceText = True, DReferences = True, DDirtyBuffer = [],
            DSpanKind = WITHIN_SPAN, DFilter = []\<rparr>"


definition reply4 :: DecorationsReply where
  "reply4 =
     \<lparr>RLocation = \<lparr>LocTicket = ''kythe:?path=f'', LocKind = Location_FILE,
                    LocStart = None, LocEnd = None\<rparr>,
      RSourceText = ''abc\<newline>def\<newline>'', REncoding = [],
      RReference =
        [\<lparr>SourceTicket = ''kythe:?path=f#a2'', RKind = ''/kythe/edge/ref'',
          RTargetTicket = ''kythe:#y'',
          AnchorStart = \<lparr>ByteOffset = 0, LineNumber = 1, ColumnOffset = 0\<rparr>,
          AnchorEnd = \<lparr>ByteOffset = 3, LineNumber = 1, ColumnOffset = 3\<rparr>\<rparr>,
         \<lparr>SourceTicket = ''kythe:?path=f#a1'', RKind = ''/kythe/edge/ref'',
          RTargetTicket = ''kythe:#x'',
          AnchorStart = \<lparr>ByteOffset = 4, LineNumber = 2, ColumnOffset = 0\<rparr>,
          AnchorEnd = \<lparr>ByteOffset = 7, LineNumber = 2, ColumnOffset = 3\<rparr>\<rparr>],
      RNodes = []\<rparr>"

text \<open>The order of two references in which \<open>Less\<close> does not put the second first.\<close>

definition span_le :: "Reference \<Rightarrow> Reference \<Rightarrow> bool" where
  "span_le a b =
     (sint (ByteOffset (AnchorStart a)) < sint (ByteOffset (AnchorStart b)) \<or>
      (ByteOffset (AnchorStart a) = ByteOffset (AnchorStart b) \<and>
       sint (ByteOffset (AnchorEnd a)) \<le> sint (ByteOffset (AnchorEnd b))))"

definition loc4 :: Location where
  "loc4 = \<lparr>LocTicket = ''kythe:?path=f'', LocKind = Location_FILE, LocStart = None, LocEnd = None\<rparr>"

text \<open>
  An \<open>Edges\<close> request on the store of scenario S4 for the reference edges of an anchor
  and of the file, with a filter that the node kind of the file matches.
\<close>

definition req7 :: EdgesRequest where
  "req7 = \<lparr>ETicket = [''kythe:?path=f#a1'', ''kythe:?path=f''], EKind = [''/kythe/edge/ref''],
            EFilter = [''/kythe/node/*''], EPageSize = 0, EPageToken = []\<rparr>"

definition reply7 :: EdgesReply where
  "reply7 =
     \<lparr>EdgeSets =
        [(''kythe:?path=f#a1'',
          [(''/kythe/edge/ref'', [\<lparr>TargetTicket = ''kythe:#x'', Ordinal = 0\<rparr>])])],
      ENodes = [(''kythe:?path=f#a1'', [(''/kythe/node/kind'', ''anchor'')])],
      ENextPageToken = []\<rparr>"

text \<open>
  A store with two forward edges and no reverse edge, and a store whose first edge is a
  reverse edge while a forward edge further on has no reverse.
\<close>

definition store2 :: store where
  "store2 = store_of
     [node_fact vA1 ''/kythe/node/kind'' ''anchor'',
      edge_entry vA1 ''/kythe/edge/childof'' vF,
      edge_entry vA1 ''/kythe/edge/ref'' vX]"

definition store2r :: store where
  "store2r = store_of
     [edge_entry vF ''%/kythe/edge/childof'' vA1,
      edge_entry vA2 ''/kythe/edge/ref'' vY]"

text \<open>The reverse of an edge entry, as \<open>addReverseEdges\<close> writes it.\<close>

definition reverse_of :: "lib \<Rightarrow> Entry \<Rightarrow> Entry" where
  "reverse_of L e =
     \<lparr>Source = Target e, EdgeKind = Mirror L (EdgeKind e), Target = Source e,
      FactName = FactName e, FactValue = FactValue e\<rparr>"







text \<open>
  Scenario S5 of the specification: a node with a binding definition in one anchor, a
  reference in another and a \<^verbatim>\<open>generates\<close> edge to a third node. The first request
  has a filter, the second has none.
\<close>

definition store5 :: store where
  "store5 = store_of
     [node_fact vF ''/kythe/node/kind'' ''file'',
      node_fact vF ''/kythe/text'' ''abc\<newline>def\<newline>'',
      node_fact vA1 ''/kythe/node/kind'' ''anchor'',
      node_fact vA1 ''/kythe/loc/start'' ''4'',
      node_fact vA1 ''/kythe/loc/end'' ''7'',
      node_fact vA2 ''/kythe/node/kind'' ''anchor'',
      node_fact vA2 ''/kythe/loc/start'' ''0'',
      node_fact vA2 ''/kythe/loc/end'' ''3'',
      node_fact vX ''/kythe/node/kind'' ''function'',
      edge_entry vX ''/kythe/edge/defines/binding'' vA1,
      edge_entry vX ''/kythe/edge/ref'' vA2,
      edge_entry vX ''/kythe/edge/generates'' vY,
      node_fact vY ''/kythe/node/kind'' ''function'']"

definition req5 :: CrossReferencesRequest where
  "req5 = \<lparr>XTicket = [''kythe:#x''], XDefinitionKind = BINDING_DEFINITIONS,
            XReferenceKind = ALL_REFERENCES, XDocumentationKind = NO_DOCUMENTATION,
            XAnchorText = True, XFilter = [''/kythe/node/*''], XPageSize = 0, XPageToken = []\<rparr>"

definition req5n :: CrossReferencesRequest where
  "req5n = req5\<lparr>XFilter := []\<rparr>"

definition set5 :: CrossReferenceSet where
  "set5 =
     \<lparr>CTicket = ''kythe:#x'',
      Definition =
        [\<lparr>ATicket = ''kythe:?path=f#a1'', AKind = ''/kythe/edge/defines/binding'',
          AParent = ''kythe:?path=f'', AText = ''def'',
          AStart = \<lparr>ByteOffset = 4, LineNumber = 2, ColumnOffset = 0\<rparr>,
          AEnd = \<lparr>ByteOffset = 7, LineNumber = 2, ColumnOffset = 3\<rparr>,
          ASnippet = ''def'',
          ASnippetStart = \<lparr>ByteOffset = 4, LineNumber = 2, ColumnOffset = 0\<rparr>,
          ASnippetEnd = \<lparr>ByteOffset = 7, LineNumber = 2, ColumnOffset = 3\<rparr>\<rparr>],
      CReference =
        [\<lparr>ATicket = ''kythe:?path=f#a2'', AKind = ''/kythe/edge/ref'',
          AParent = ''kythe:?path=f'', AText = ''abc'',
          AStart = \<lparr>ByteOffset = 0, LineNumber = 1, ColumnOffset = 0\<rparr>,
          AEnd = \<lparr>ByteOffset = 3, LineNumber = 1, ColumnOffset = 3\<rparr>,
          ASnippet = ''abc'',
          ASnippetStart = \<lparr>ByteOffset = 0, LineNumber = 1, ColumnOffset = 0\<rparr>,
          ASnippetEnd = \<lparr>ByteOffset = 3, LineNumber = 1, ColumnOffset = 3\<rparr>\<rparr>],
      Documentation = [], CRelatedNode = []\<rparr>"

text \<open>
  The store gives the node \<open>v\<close> the fact \<open>name\<close>, and every entry for that fact has the
  value \<open>val\<close>.
\<close>

definition node_fact_is :: "store \<Rightarrow> VName \<Rightarrow> string \<Rightarrow> bytes \<Rightarrow> bool" where
  "node_fact_is s v name val =
     ((\<exists>x\<in>set (entries s). Source x = v \<and> EdgeKind x = [] \<and> FactName x = name) \<and>
      (\<forall>x\<in>set (entries s). Source x = v \<and> EdgeKind x = [] \<and> FactName x = name \<longrightarrow> FactValue x = val))"

text \<open>
  The edge targets that \<open>getEdges\<close> makes of the entries of a node that are edges and
  pass the test.
\<close>

definition edge_targets :: "lib \<Rightarrow> Entry list \<Rightarrow> VName \<Rightarrow> (Entry \<Rightarrow> bool) \<Rightarrow> edgeTarget list" where
  "edge_targets L es node pred =
     map (\<lambda>entry.
            case ParseOrdinal L (EdgeKind entry) of (edgeKind, ordinal, hasOrdinal) \<Rightarrow>
              \<lparr>TKind = edgeKind, TTarget = Target entry, TOrdinal = int32 ordinal\<rparr>)
         (filter (\<lambda>entry. IsEdge entry \<and> pred entry) (filter (read_match node ''*'') es))"

text \<open>
  A file with one anchor whose start offset lies behind its end offset and behind the end
  of the text.
\<close>

definition vA3 :: VName where "vA3 = VName ''a3'' [] [] ''f'' []"

definition store10 :: store where
  "store10 = store_of
     [node_fact vF ''/kythe/node/kind'' ''file'',
      node_fact vF ''/kythe/text'' ''abc\<newline>def\<newline>'',
      edge_entry vF ''%/kythe/edge/childof'' vA3,
      node_fact vA3 ''/kythe/node/kind'' ''anchor'',
      node_fact vA3 ''/kythe/loc/start'' ''20'',
      node_fact vA3 ''/kythe/loc/end'' ''5'',
      edge_entry vA3 ''/kythe/edge/childof'' vF,
      edge_entry vA3 ''/kythe/edge/ref'' vX]"

definition reply10 :: DecorationsReply where
  "reply10 =
     \<lparr>RLocation = loc4, RSourceText = ''abc\<newline>def\<newline>'', REncoding = [],
      RReference =
        [\<lparr>SourceTicket = ''kythe:?path=f#a3'', RKind = ''/kythe/edge/ref'',
          RTargetTicket = ''kythe:#x'',
          AnchorStart = \<lparr>ByteOffset = 8, LineNumber = 3, ColumnOffset = 0\<rparr>,
          AnchorEnd = \<lparr>ByteOffset = 5, LineNumber = 2, ColumnOffset = 1\<rparr>\<rparr>],
      RNodes = []\<rparr>"

text \<open>
  A file of two lines and an anchor in the second line whose start and end offsets are
  equal and which has no snippet facts.
\<close>

definition vG :: VName where "vG = VName [] [] [] ''g'' []"
definition vB :: VName where "vB = VName ''b'' [] [] ''g'' []"

definition store8 :: store where
  "store8 = store_of
     [node_fact vG ''/kythe/node/kind'' ''file'',
      node_fact vG ''/kythe/text'' ''hello\<newline>world\<newline>'',
      node_fact vB ''/kythe/node/kind'' ''anchor'',
      node_fact vB ''/kythe/loc/start'' ''7'',
      node_fact vB ''/kythe/loc/end'' ''7'']"

definition anchor8 :: Anchor where
  "anchor8 =
     \<lparr>ATicket = ''kythe:?path=g#b'', AKind = ''/kythe/edge/ref'', AParent = ''kythe:?path=g'',
      AText = [],
      AStart = \<lparr>ByteOffset = 7, LineNumber = 2, ColumnOffset = 1\<rparr>,
      AEnd = \<lparr>ByteOffset = 7, LineNumber = 2, ColumnOffset = 1\<rparr>,
      ASnippet = ''world'',
      ASnippetStart = \<lparr>ByteOffset = 6, LineNumber = 2, ColumnOffset = 0\<rparr>,
      ASnippetEnd = \<lparr>ByteOffset = 11, LineNumber = 2, ColumnOffset = 5\<rparr>\<rparr>"

definition file8 :: fileNode where
  "file8 = \<lparr>FText = ''hello\<newline>world\<newline>'', FEncoding = []\<rparr>"

text \<open>
  An anchor as the body of the loop of \<open>completeAnchors\<close> makes it, from the facts
  \<open>info\<close> of its node and the file \<open>file\<close>.
\<close>

definition completed :: "lib \<Rightarrow> bool \<Rightarrow> Facts \<Rightarrow> fileNode \<Rightarrow> Anchor \<Rightarrow> bool" where
  "completed L retrieveText info file a =
     (\<exists>start end s1 s2 s3.
        getSpan info facts_AnchorStart facts_AnchorEnd = Inr (start, end) \<and>
        normalizeSpan L (FText file) (int32 start) (int32 end) = (AStart a, AEnd a, None) \<and>
        anchor_text L retrieveText file (AStart a) (AEnd a) s1 = (Inr (AText a), s2) \<and>
        anchor_snippet L file (ATicket a) (AParent a) info (AStart a) s2
          = (Inr (ASnippet a, ASnippetStart a, ASnippetEnd a), s3))"

text \<open>A store whose first edge is a forward edge that has its reverse.\<close>

definition store2m :: store where
  "store2m = store_of
     [edge_entry vA1 ''/kythe/edge/childof'' vF,
      edge_entry vF ''%/kythe/edge/childof'' vA1]"

text \<open>
  The file of two lines again, with an anchor of width zero at the end of its text, after
  the last newline; and a file with an empty text, with an anchor of width zero.
\<close>

definition vE :: VName where "vE = VName ''e'' [] [] ''g'' []"

definition store8e :: store where
  "store8e = store_of
     [node_fact vG ''/kythe/node/kind'' ''file'',
      node_fact vG ''/kythe/text'' ''hello\<newline>world\<newline>'',
      node_fact vE ''/kythe/node/kind'' ''anchor'',
      node_fact vE ''/kythe/loc/start'' ''12'',
      node_fact vE ''/kythe/loc/end'' ''12'']"

definition store8z :: store where
  "store8z = store_of
     [node_fact vG ''/kythe/node/kind'' ''file'',
      node_fact vG ''/kythe/text'' [],
      node_fact vE ''/kythe/node/kind'' ''anchor'',
      node_fact vE ''/kythe/loc/start'' ''0'',
      node_fact vE ''/kythe/loc/end'' ''0'']"

section \<open>The store under the queries\<close>

lemma gs_Read_Inr:
  "gs_Read s v k = (Inr es, s') \<Longrightarrow>
     es = filter (read_match v k) (entries s) \<and> entries s' = entries s \<and> faulty s' = faulty s
     \<and> calls s' = calls s @ [ReadCall v k]"
  by (auto simp: gs_Read_def logged_def split: if_splits)

lemma nodes_visit_dom:
  "fst ` set (nodes_visit L p es info) =
     fst ` set info \<union> {FactName e | e. e \<in> set es \<and> (p = [] \<or> MatchesAny L (FactName e) p)}"
  by (induction es arbitrary: info) (auto simp: dom_update)

lemma nodes_visit_val:
  "map_of (nodes_visit L p es info) name = Some val \<Longrightarrow>
     map_of info name = Some val \<or> (\<exists>e\<in>set es. FactName e = name \<and> FactValue e = val)"
proof (induction es arbitrary: info)
  case Nil then show ?case by simp
next
  case (Cons e es)
  from Cons.IH[OF Cons.prems[simplified]] show ?case
    by (auto simp: update_conv' split: if_splits)
qed

lemma nodes_visit_Nil:
  "nodes_visit L p es [] = [] \<longleftrightarrow> \<not> (\<exists>e\<in>set es. p = [] \<or> MatchesAny L (FactName e) p)"
proof -
  have "nodes_visit L p es [] = [] \<longleftrightarrow> fst ` set (nodes_visit L p es []) = {}" by simp
  also have "\<dots> \<longleftrightarrow> \<not> (\<exists>e\<in>set es. p = [] \<or> MatchesAny L (FactName e) p)"
    unfolding nodes_visit_dom by auto
  finally show ?thesis .
qed

lemma parse_tickets_Inr:
  "parse_tickets L ts = Inr names \<Longrightarrow>
     zip ts names = map (\<lambda>t. (t, the (ToVName L t))) ts \<and> (\<forall>t\<in>set ts. ToVName L t \<noteq> None)"
  by (induction ts arbitrary: names) (auto split: option.splits sum.splits)

lemma parse_tickets_Inl:
  "parse_tickets L ts = Inl e \<Longrightarrow> (\<exists>t\<in>set ts. ToVName L t = None)"
  by (induction ts) (auto split: option.splits sum.splits)


lemma nodes_loop_step:
  assumes "nodes_loop L p ((t0, v0) # tvs) nodes s = (Inr r, s')"
  obtains s1 where "gs_Read s v0 [] = (Inr (filter (read_match v0 []) (entries s)), s1)"
    and "entries s1 = entries s" and "faulty s1 = faulty s"
    and "nodes_loop L p tvs
           (if nodes_visit L p (filter (read_match v0 []) (entries s)) [] \<noteq> []
            then AList.update t0 (nodes_visit L p (filter (read_match v0 []) (entries s)) []) nodes
            else nodes) s1 = (Inr r, s')"
proof -
  from assms obtain es s1 where rd: "gs_Read s v0 [] = (Inr es, s1)"
    and lp: "nodes_loop L p tvs (if nodes_visit L p es [] \<noteq> [] then AList.update t0 (nodes_visit L p es []) nodes else nodes) s1 = (Inr r, s')"
    by (auto simp: Let_def split: prod.splits sum.splits)
  from gs_Read_Inr[OF rd] have es: "es = filter (read_match v0 []) (entries s)"
    and e1: "entries s1 = entries s" and f1: "faulty s1 = faulty s" by simp_all
  show ?thesis
    by (rule that[OF rd[unfolded es] e1 f1 lp[unfolded es]])
qed

lemma nodes_loop_Some:
  "nodes_loop L p tvs nodes s = (Inr r, s') \<Longrightarrow> map_of r t = Some info \<Longrightarrow>
     map_of nodes t = Some info \<or>
     (\<exists>v. (t, v) \<in> set tvs \<and> info = nodes_visit L p (filter (read_match v []) (entries s)) [] \<and> info \<noteq> [])"
proof (induction tvs arbitrary: nodes s)
  case Nil then show ?case by simp
next
  case (Cons tv tvs)
  obtain t0 v0 where tv: "tv = (t0, v0)" by (cases tv)
  from Cons.prems(1)[unfolded tv] show ?case
  proof (rule nodes_loop_step)
    fix s1
    assume e: "entries s1 = entries s"
      and lp: "nodes_loop L p tvs
           (if nodes_visit L p (filter (read_match v0 []) (entries s)) [] \<noteq> []
            then AList.update t0 (nodes_visit L p (filter (read_match v0 []) (entries s)) []) nodes
            else nodes) s1 = (Inr r, s')"
    from Cons.IH[OF lp Cons.prems(2)] show ?thesis
      unfolding e tv by (auto simp: update_conv' split: if_splits)
  qed
qed

lemma nodes_loop_mono:
  "nodes_loop L p tvs nodes s = (Inr r, s') \<Longrightarrow> map_of nodes t \<noteq> None \<Longrightarrow> map_of r t \<noteq> None"
proof (induction tvs arbitrary: nodes s)
  case Nil then show ?case by simp
next
  case (Cons tv tvs)
  obtain t0 v0 where tv: "tv = (t0, v0)" by (cases tv)
  from Cons.prems(1)[unfolded tv] show ?case
  proof (rule nodes_loop_step)
    fix s1
    assume lp: "nodes_loop L p tvs
           (if nodes_visit L p (filter (read_match v0 []) (entries s)) [] \<noteq> []
            then AList.update t0 (nodes_visit L p (filter (read_match v0 []) (entries s)) []) nodes
            else nodes) s1 = (Inr r, s')"
    show ?thesis
      by (rule Cons.IH[OF lp]) (use Cons.prems(2) in \<open>auto simp: update_conv'\<close>)
  qed
qed

lemma nodes_loop_present:
  "nodes_loop L p tvs nodes s = (Inr r, s') \<Longrightarrow> (t, v) \<in> set tvs \<Longrightarrow>
     nodes_visit L p (filter (read_match v []) (entries s)) [] \<noteq> [] \<Longrightarrow> map_of r t \<noteq> None"
proof (induction tvs arbitrary: nodes s)
  case Nil then show ?case by simp
next
  case (Cons tv tvs)
  obtain t0 v0 where tv: "tv = (t0, v0)" by (cases tv)
  from Cons.prems(1)[unfolded tv] show ?case
  proof (rule nodes_loop_step)
    fix s1
    assume e: "entries s1 = entries s"
      and lp: "nodes_loop L p tvs
           (if nodes_visit L p (filter (read_match v0 []) (entries s)) [] \<noteq> []
            then AList.update t0 (nodes_visit L p (filter (read_match v0 []) (entries s)) []) nodes
            else nodes) s1 = (Inr r, s')"
    show ?thesis
    proof (cases "(t, v) = (t0, v0)")
      case True
      with Cons.prems(3) have "map_of (if nodes_visit L p (filter (read_match v0 []) (entries s)) [] \<noteq> []
            then AList.update t0 (nodes_visit L p (filter (read_match v0 []) (entries s)) []) nodes
            else nodes) t \<noteq> None" by (simp add: update_conv')
      from nodes_loop_mono[OF lp this] show ?thesis .
    next
      case False
      with Cons.prems(2) tv have "(t, v) \<in> set tvs" by auto
      from Cons.IH[OF lp this] Cons.prems(3) e show ?thesis by simp
    qed
  qed
qed

lemma Nodes_Inr:
  assumes "Nodes L req s = (Inr reply, s')"
  shows "zip (NTicket req) (map (\<lambda>t. the (ToVName L t)) (NTicket req)) = map (\<lambda>t. (t, the (ToVName L t))) (NTicket req)"
    and "\<forall>t\<in>set (NTicket req). ToVName L t \<noteq> None"
    and "nodes_loop L (NFilter req) (map (\<lambda>t. (t, the (ToVName L t))) (NTicket req)) [] s = (Inr reply, s')"
proof -
  from assms obtain names where p: "parse_tickets L (NTicket req) = Inr names"
    and l: "nodes_loop L (NFilter req) (zip (NTicket req) names) [] s = (Inr reply, s')"
    by (auto simp: Nodes_def split: sum.splits)
  from parse_tickets_Inr[OF p] l
  show "\<forall>t\<in>set (NTicket req). ToVName L t \<noteq> None"
    and "nodes_loop L (NFilter req) (map (\<lambda>t. (t, the (ToVName L t))) (NTicket req)) [] s = (Inr reply, s')"
    by simp_all
  show "zip (NTicket req) (map (\<lambda>t. the (ToVName L t)) (NTicket req)) = map (\<lambda>t. (t, the (ToVName L t))) (NTicket req)"
    by (simp add: zip_map2 zip_same_conv_map)
qed

lemma Nodes_Some:
  assumes "Nodes L req s = (Inr reply, s')" and "map_of reply t = Some facts"
  shows "\<exists>v. t \<in> set (NTicket req) \<and> ToVName L t = Some v \<and> facts \<noteq> [] \<and>
           facts = nodes_visit L (NFilter req) (filter (read_match v []) (entries s)) []"
proof -
  from nodes_loop_Some[OF Nodes_Inr(3)[OF assms(1)] assms(2)] Nodes_Inr(2)[OF assms(1)]
  show ?thesis by auto
qed

lemma Nodes_None:
  assumes "Nodes L req s = (Inr reply, s')" and "t \<in> set (NTicket req)" and "ToVName L t = Some v"
  shows "map_of reply t = None \<longleftrightarrow> nodes_visit L (NFilter req) (filter (read_match v []) (entries s)) [] = []"
proof
  assume "map_of reply t = None"
  with nodes_loop_present[OF Nodes_Inr(3)[OF assms(1)], of t v] assms(2,3)
  show "nodes_visit L (NFilter req) (filter (read_match v []) (entries s)) [] = []"
    by force
next
  assume e: "nodes_visit L (NFilter req) (filter (read_match v []) (entries s)) [] = []"
  show "map_of reply t = None"
  proof (rule ccontr)
    assume "map_of reply t \<noteq> None"
    then obtain facts where "map_of reply t = Some facts" by auto
    from Nodes_Some[OF assms(1) this] assms(3) e show False by auto
  qed
qed

text \<open>
  Claim C3. When \<open>Nodes\<close> returns a reply, a ticket of the reply is a ticket of the
  request, and its facts are the node facts of its node that are retained: all of them
  under an empty filter list, those whose name matches some pattern otherwise; each has
  the value of an entry of the store. A ticket of the request is left out of the reply
  exactly when no fact of its node is retained.
\<close>

theorem Nodes_reply:
  assumes "Nodes L req s = (Inr reply, s')"
  shows "(\<forall>t facts. map_of reply t = Some facts \<longrightarrow>
            (\<exists>v. t \<in> set (NTicket req) \<and> ToVName L t = Some v \<and>
               (\<forall>name. name \<in> fst ` set facts \<longleftrightarrow>
                  (\<exists>e\<in>set (entries s). Source e = v \<and> EdgeKind e = [] \<and> FactName e = name \<and>
                     (NFilter req = [] \<or> MatchesAny L name (NFilter req)))) \<and>
               (\<forall>name val. map_of facts name = Some val \<longrightarrow>
                  (\<exists>e\<in>set (entries s). Source e = v \<and> EdgeKind e = [] \<and> FactName e = name \<and>
                     FactValue e = val)))) \<and>
         (\<forall>t v. t \<in> set (NTicket req) \<longrightarrow> ToVName L t = Some v \<longrightarrow>
            (map_of reply t = None \<longleftrightarrow>
               \<not> (\<exists>e\<in>set (entries s). Source e = v \<and> EdgeKind e = [] \<and>
                     (NFilter req = [] \<or> MatchesAny L (FactName e) (NFilter req)))))"
proof (intro conjI allI impI)
  fix t facts
  assume "map_of reply t = Some facts"
  from Nodes_Some[OF assms this] obtain v where tv: "t \<in> set (NTicket req)" "ToVName L t = Some v"
    and f: "facts = nodes_visit L (NFilter req) (filter (read_match v []) (entries s)) []" by auto
  have dom: "\<forall>name. name \<in> fst ` set facts \<longleftrightarrow>
                  (\<exists>e\<in>set (entries s). Source e = v \<and> EdgeKind e = [] \<and> FactName e = name \<and>
                     (NFilter req = [] \<or> MatchesAny L name (NFilter req)))"
    unfolding f nodes_visit_dom by (auto simp: read_match_def)
  have val: "\<forall>name val. map_of facts name = Some val \<longrightarrow>
                  (\<exists>e\<in>set (entries s). Source e = v \<and> EdgeKind e = [] \<and> FactName e = name \<and>
                     FactValue e = val)"
    unfolding f using nodes_visit_val[of L "NFilter req" "filter (read_match v []) (entries s)" "[]"]
    by (fastforce simp: read_match_def)
  from tv dom val
  show "\<exists>v. t \<in> set (NTicket req) \<and> ToVName L t = Some v \<and>
               (\<forall>name. name \<in> fst ` set facts \<longleftrightarrow>
                  (\<exists>e\<in>set (entries s). Source e = v \<and> EdgeKind e = [] \<and> FactName e = name \<and>
                     (NFilter req = [] \<or> MatchesAny L name (NFilter req)))) \<and>
               (\<forall>name val. map_of facts name = Some val \<longrightarrow>
                  (\<exists>e\<in>set (entries s). Source e = v \<and> EdgeKind e = [] \<and> FactName e = name \<and>
                     FactValue e = val))"
    by blast
next
  fix t v
  assume "t \<in> set (NTicket req)" "ToVName L t = Some v"
  from Nodes_None[OF assms this]
  show "map_of reply t = None \<longleftrightarrow>
               \<not> (\<exists>e\<in>set (entries s). Source e = v \<and> EdgeKind e = [] \<and>
                     (NFilter req = [] \<or> MatchesAny L (FactName e) (NFilter req)))"
    unfolding nodes_visit_Nil by (auto simp: read_match_def)
qed

lemma fst_eq_pair: "fst p = a \<Longrightarrow> p = (a, snd p)"
  by (cases p) simp

lemma Nodes_example:
  "fst (Nodes lib0 req3 store3) = Inr [(''kythe:#t'', [(''/kythe/node/kind'', ''function'')])]"
  by code_simp

theorem Nodes_reply_witness:
  "Nodes lib0 req3 store3 =
     (Inr [(''kythe:#t'', [(''/kythe/node/kind'', ''function'')])], snd (Nodes lib0 req3 store3))
   \<and> ''kythe:#t'' \<in> set (NTicket req3)
   \<and> (\<exists>v. ToVName lib0 ''kythe:#t'' = Some v \<and>
         (\<exists>e\<in>set (entries store3). Source e = v \<and> EdgeKind e = [] \<and> FactName e = ''/kythe/node/kind'' \<and>
             FactValue e = ''function''))
   \<and> (map_of [(''kythe:#t'', [(''/kythe/node/kind'', ''function'')])] ''kythe:#u'' = None)
       = (\<not> (\<exists>e\<in>set (entries store3). Source e = vU \<and> EdgeKind e = [] \<and>
                     (NFilter req3 = [] \<or> MatchesAny lib0 (FactName e) (NFilter req3))))"
proof -
  note h = fst_eq_pair[OF Nodes_example]
  note T1 = Nodes_reply[OF h, THEN conjunct1, rule_format]
  note T2 = Nodes_reply[OF h, THEN conjunct2, rule_format]
  have u: "''kythe:#u'' \<in> set (NTicket req3)" "ToVName lib0 ''kythe:#u'' = Some vU"
    by code_simp+
  have m: "map_of [(''kythe:#t'', [(''/kythe/node/kind'', ''function'')])] ''kythe:#t''
          = Some [(''/kythe/node/kind'', ''function'')]"
    by simp
  have n: "map_of [(''/kythe/node/kind'', ''function'')] ''/kythe/node/kind'' = Some ''function''"
    by simp
  from T1[OF m] obtain v where t: "''kythe:#t'' \<in> set (NTicket req3)"
    and v: "ToVName lib0 ''kythe:#t'' = Some v"
    and f: "\<forall>name val. map_of [(''/kythe/node/kind'', ''function'')] name = Some val \<longrightarrow>
               (\<exists>e\<in>set (entries store3). Source e = v \<and> EdgeKind e = [] \<and> FactName e = name \<and>
                  FactValue e = val)"
    by (elim exE conjE)
  from f[rule_format, OF n] v have
    c: "\<exists>v. ToVName lib0 ''kythe:#t'' = Some v \<and>
         (\<exists>e\<in>set (entries store3). Source e = v \<and> EdgeKind e = [] \<and> FactName e = ''/kythe/node/kind'' \<and>
             FactValue e = ''function'')"
    by (intro exI[of _ v] conjI)
  show ?thesis
    by (intro conjI h t c T2[OF u])
qed

lemma sint_eq_iff: "sint (a :: int32) = sint b \<longleftrightarrow> a = b"
  by (auto intro: signed_word_eqI)

lemma span_le_Less: "span_le a b \<longleftrightarrow> \<not> Less b a"
  by (auto simp: span_le_def Less_def sint_eq_iff[symmetric])

lemma span_le_trans: "span_le a b \<Longrightarrow> span_le b c \<Longrightarrow> span_le a c"
  by (auto simp: span_le_def)

lemma span_le_total: "Less a b \<Longrightarrow> span_le a b"
  by (auto simp: span_le_def Less_def sint_eq_iff[symmetric] split: if_splits)

lemma set_insert_by: "set (insert_by lt x ys) = insert x (set ys)"
  by (induction ys) auto

lemma sorted_insert_by:
  "sorted_wrt span_le ys \<Longrightarrow> sorted_wrt span_le (insert_by Less x ys)"
proof (induction ys)
  case Nil then show ?case by simp
next
  case (Cons y ys)
  show ?case
  proof (cases "Less x y")
    case True
    then have xy: "span_le x y" by (rule span_le_total)
    with Cons.prems have "\<forall>z\<in>set ys. span_le x z" by (auto intro: span_le_trans)
    with True xy Cons.prems show ?thesis by simp
  next
    case False
    then have "span_le y x" by (simp add: span_le_Less)
    with False Cons show ?thesis by (auto simp: set_insert_by)
  qed
qed

lemma sorted_sort_Sort: "sorted_wrt span_le (sort_Sort Less xs)"
  unfolding sort_Sort_def by (induction xs) (simp_all add: sorted_insert_by)

lemma set_sort_Sort: "set (sort_Sort lt xs) = set xs"
  unfolding sort_Sort_def by (induction xs) (simp_all add: set_insert_by)

lemma decor_references_sorted:
  "decor_references L req v loc norm s = (Inr (refs, nodes), s') \<Longrightarrow> \<exists>xs. refs = sort_Sort Less xs"
  by (auto simp: decor_references_def split: prod.splits sum.splits if_splits)

lemma Decorations_references:
  assumes "Decorations L req s = (Inr reply, s')"
  shows "\<exists>xs. RReference reply = sort_Sort Less xs"
proof (cases "DReferences req")
  case True
  with assms obtain v loc norm s1 nodes where
    "decor_references L req v loc norm s1 = (Inr (RReference reply, nodes), s')"
    by (auto simp: Decorations_def split: option.splits prod.splits sum.splits if_splits)
  then show ?thesis by (rule decor_references_sorted)
next
  case False
  with assms have "RReference reply = []"
    by (auto simp: Decorations_def split: option.splits prod.splits sum.splits if_splits)
  then have "RReference reply = sort_Sort Less []" by (simp add: sort_Sort_def)
  then show ?thesis ..
qed

section \<open>Decorations: the order of the references\<close>

text \<open>
  Claim C5. In every reply of \<open>Decorations\<close>, two neighbouring references are in the
  order of their anchors: the first starts at a smaller byte offset, or both start at the
  same offset and the first does not end later.
\<close>

theorem Decorations_references_sorted:
  assumes "Decorations L req s = (Inr reply, s')" and "Suc i < length (RReference reply)"
  shows "sint (ByteOffset (AnchorStart (RReference reply ! i)))
           < sint (ByteOffset (AnchorStart (RReference reply ! Suc i))) \<or>
         (ByteOffset (AnchorStart (RReference reply ! i))
            = ByteOffset (AnchorStart (RReference reply ! Suc i)) \<and>
          sint (ByteOffset (AnchorEnd (RReference reply ! i)))
            \<le> sint (ByteOffset (AnchorEnd (RReference reply ! Suc i))))"
proof -
  from Decorations_references[OF assms(1)] obtain xs where "RReference reply = sort_Sort Less xs" ..
  then have "sorted_wrt span_le (RReference reply)" by (simp add: sorted_sort_Sort)
  with assms(2) have "span_le (RReference reply ! i) (RReference reply ! Suc i)"
    by (simp add: sorted_wrt_nth_less)
  then show ?thesis by (simp add: span_le_def)
qed

lemma Decorations_example: "fst (Decorations lib0 req4 store4) = Inr reply4"
  by code_simp

theorem Decorations_references_sorted_witness:
  "Decorations lib0 req4 store4 = (Inr reply4, snd (Decorations lib0 req4 store4)) \<and>
   Suc 0 < length (RReference reply4) \<and>
   (sint (ByteOffset (AnchorStart (RReference reply4 ! 0)))
           < sint (ByteOffset (AnchorStart (RReference reply4 ! Suc 0))) \<or>
         (ByteOffset (AnchorStart (RReference reply4 ! 0))
            = ByteOffset (AnchorStart (RReference reply4 ! Suc 0)) \<and>
          sint (ByteOffset (AnchorEnd (RReference reply4 ! 0)))
            \<le> sint (ByteOffset (AnchorEnd (RReference reply4 ! Suc 0)))))"
proof -
  note h = fst_eq_pair[OF Decorations_example]
  have l: "Suc 0 < length (RReference reply4)" by code_simp
  show ?thesis
    by (intro conjI h l Decorations_references_sorted[OF h l])
qed

section \<open>Decorations: the encoding of the reply\<close>

lemma source_visit_encoding:
  "snd (source_visit es (tx, encoding)) = encoding \<or>
   (\<exists>e\<in>set es. FactName e = facts_TextEncoding \<and> FactValue e = snd (source_visit es (tx, encoding)))"
proof (induction es arbitrary: tx encoding)
  case Nil then show ?case by simp
next
  case (Cons e es)
  show ?case
    using Cons.IH[of "Some (FactValue e)" encoding] Cons.IH[of tx "FactValue e"] Cons.IH[of tx encoding]
    by auto
qed

lemma getSourceText_encoding:
  assumes "getSourceText s v = (Inr (tx, encoding), s')"
  shows "encoding = [] \<or>
         (\<exists>e\<in>set (entries s). Source e = v \<and> EdgeKind e = [] \<and>
            FactName e = facts_TextEncoding \<and> FactValue e = encoding)"
proof -
  from assms obtain es where rd: "gs_Read s v [] = (Inr es, s')"
    and sv: "source_visit es (None, []) = (Some tx, encoding)"
    by (auto simp: getSourceText_def split: prod.splits sum.splits option.splits)
  from gs_Read_Inr[OF rd] have es: "es = filter (read_match v []) (entries s)" by simp
  from source_visit_encoding[of es None "[]"] sv
  show ?thesis by (auto simp: es read_match_def)
qed

lemma decor_source_text_encoding:
  "decor_source_text req loc tx encoding = Inr (sourceText, enc) \<Longrightarrow> DSourceText req \<Longrightarrow> enc = encoding"
  by (auto simp: decor_source_text_def split: if_splits option.splits)

lemma Decorations_encoding:
  assumes "Decorations L req s = (Inr reply, s')" and "DSourceText req"
    and "DLocation req = Some location" and "ToVName L (LocTicket location) = Some v"
  shows "\<exists>tx s1. getSourceText s v = (Inr (tx, REncoding reply), s1)"
proof -
  from assms(1,3,4) obtain tx encoding s1 loc sourceText enc where
    g: "getSourceText s v = (Inr (tx, encoding), s1)"
    and d: "decor_source_text req loc tx encoding = Inr (sourceText, enc)"
    and r: "REncoding reply = enc"
    by (auto simp: Decorations_def split: option.splits prod.splits sum.splits if_splits)
  from decor_source_text_encoding[OF d assms(2)] r g show ?thesis by auto
qed

text \<open>
  Claim C6, as the code has it. \<open>Decorations\<close> passes the encoding on as the store has
  it: when every text/encoding fact of the file node is empty, or there is none, the
  encoding of the reply is the empty string. The default encoding is never filled in.
\<close>

theorem Decorations_encoding_empty:
  assumes "Decorations L req s = (Inr reply, s')" and "DSourceText req"
    and "DLocation req = Some location" and "ToVName L (LocTicket location) = Some v"
    and "\<forall>e\<in>set (entries s). Source e = v \<and> EdgeKind e = [] \<and> FactName e = facts_TextEncoding
           \<longrightarrow> FactValue e = []"
  shows "REncoding reply = []"
proof -
  from Decorations_encoding[OF assms(1-4)] obtain tx s1 where
    "getSourceText s v = (Inr (tx, REncoding reply), s1)" by auto
  from getSourceText_encoding[OF this] assms(5) show ?thesis by auto
qed

lemma store4_no_encoding:
  "\<forall>e\<in>set (entries store4). Source e = vF \<and> EdgeKind e = [] \<and> FactName e = facts_TextEncoding
           \<longrightarrow> FactValue e = []"
  by code_simp

theorem Decorations_encoding_empty_witness:
  "Decorations lib0 req4 store4 = (Inr reply4, snd (Decorations lib0 req4 store4)) \<and>
   DSourceText req4 \<and> DLocation req4 = Some loc4 \<and> ToVName lib0 (LocTicket loc4) = Some vF \<and>
   REncoding reply4 = []"
proof -
  note h = fst_eq_pair[OF Decorations_example]
  have a: "DSourceText req4" and b: "DLocation req4 = Some loc4"
    and c: "ToVName lib0 (LocTicket loc4) = Some vF"
    by code_simp+
  show ?thesis
    by (intro conjI h a b c Decorations_encoding_empty[OF h a b c store4_no_encoding])
qed

text \<open>
  Claim C6, as it is written, fails: the file of the example has a text fact and no
  text/encoding fact, the request asks for the source text, and the encoding of the reply
  is empty, not \<^verbatim>\<open>UTF-8\<close>.
\<close>

theorem Decorations_encoding_counterexample:
  "fst (Decorations lib0 req4 store4) = Inr reply4 \<and> DSourceText req4 \<and>
   (\<exists>e\<in>set (entries store4). Source e = vF \<and> EdgeKind e = [] \<and> FactName e = facts_Text) \<and>
   \<not> (\<exists>e\<in>set (entries store4). Source e = vF \<and> EdgeKind e = [] \<and> FactName e = facts_TextEncoding) \<and>
   REncoding reply4 \<noteq> DefaultTextEncoding"
  by code_simp

section \<open>Edges: which sources get an edge set\<close>

lemma edges_visit_nonempty:
  "fst acc \<noteq> [] \<Longrightarrow> fst (edges_visit L kinds patterns e acc) \<noteq> []"
  by (cases acc) (auto simp: edges_visit_def Let_def split: prod.splits)

lemma edges_visit_first:
  "fst (edges_visit L kinds patterns e acc) \<noteq> [] \<longleftrightarrow>
     fst acc \<noteq> [] \<or>
     (EdgeKind e \<noteq> [] \<and> (kinds = [] \<or> fst (ParseOrdinal L (EdgeKind e)) \<in> set kinds))"
  by (cases acc) (auto simp: edges_visit_def Let_def split: prod.splits)

lemma fold_edges_visit:
  "fst (fold (edges_visit L kinds patterns) es acc) \<noteq> [] \<longleftrightarrow>
     fst acc \<noteq> [] \<or>
     (\<exists>e\<in>set es. EdgeKind e \<noteq> [] \<and> (kinds = [] \<or> fst (ParseOrdinal L (EdgeKind e)) \<in> set kinds))"
proof (induction es arbitrary: acc)
  case Nil then show ?case by simp
next
  case (Cons e es)
  show ?case
    unfolding fold_simps Cons.IH edges_visit_first by auto
qed

lemma edges_ticket_Inr:
  assumes "edges_ticket L req t (edgeSets, nodes, targetSet) s = (Inr (edgeSets', nodes', targetSet'), s')"
  shows "\<exists>v. ToVName L t = Some v \<and> entries s' = entries s \<and> faulty s' = faulty s \<and>
           (\<forall>u. map_of edgeSets' u \<noteq> None \<longleftrightarrow>
              map_of edgeSets u \<noteq> None \<or>
              (u = t \<and> (\<exists>e\<in>set (entries s). Source e = v \<and> EdgeKind e \<noteq> [] \<and>
                 (EKind req = [] \<or> fst (ParseOrdinal L (EdgeKind e)) \<in> set (EKind req)))))"
proof -
  from assms obtain v where v: "ToVName L t = Some v"
    by (auto simp: edges_ticket_def split: option.splits)
  with assms obtain es where rd: "gs_Read s v ''*'' = (Inr es, s')"
    by (auto simp: edges_ticket_def split: prod.splits sum.splits if_splits)
  note R = gs_Read_Inr[OF rd]
  obtain fe ff where f: "fold (edges_visit L (EKind req) (EFilter req)) es ([], []) = (fe, ff)"
    by (cases "fold (edges_visit L (EKind req) (EFilter req)) es ([], [])")
  from assms v rd f have es': "edgeSets' = (if fe \<noteq> [] then AList.update t (build_groups fe) edgeSets else edgeSets)"
    by (auto simp: edges_ticket_def split: if_splits)
  have fe: "fe \<noteq> [] \<longleftrightarrow> (\<exists>e\<in>set (entries s). Source e = v \<and> EdgeKind e \<noteq> [] \<and>
                 (EKind req = [] \<or> fst (ParseOrdinal L (EdgeKind e)) \<in> set (EKind req)))"
    using fold_edges_visit[of L "EKind req" "EFilter req" es "([], [])"] f R
    by (auto simp: read_match_def)
  show ?thesis
    using v R fe by (auto simp: es' update_conv')
qed

lemma edges_loop_Inr:
  "for_range (edges_ticket L req) ts (edgeSets, nodes, targetSet) s = (Inr (edgeSets', nodes', targetSet'), s')
   \<Longrightarrow> entries s' = entries s \<and> faulty s' = faulty s \<and>
       (\<forall>u. map_of edgeSets' u \<noteq> None \<longleftrightarrow>
              map_of edgeSets u \<noteq> None \<or>
              (u \<in> set ts \<and> (\<exists>v. ToVName L u = Some v \<and>
                  (\<exists>e\<in>set (entries s). Source e = v \<and> EdgeKind e \<noteq> [] \<and>
                     (EKind req = [] \<or> fst (ParseOrdinal L (EdgeKind e)) \<in> set (EKind req))))))"
proof (induction ts arbitrary: edgeSets nodes targetSet s)
  case Nil then show ?case by simp
next
  case (Cons t ts)
  from Cons.prems obtain e1 n1 g1 s1 where
    st: "edges_ticket L req t (edgeSets, nodes, targetSet) s = (Inr (e1, n1, g1), s1)"
    and lp: "for_range (edges_ticket L req) ts (e1, n1, g1) s1 = (Inr (edgeSets', nodes', targetSet'), s')"
    by (auto split: prod.splits sum.splits)
  from edges_ticket_Inr[OF st] obtain v where v: "ToVName L t = Some v"
    and e: "entries s1 = entries s" "faulty s1 = faulty s"
    and m: "\<forall>u. map_of e1 u \<noteq> None \<longleftrightarrow>
              map_of edgeSets u \<noteq> None \<or>
              (u = t \<and> (\<exists>e\<in>set (entries s). Source e = v \<and> EdgeKind e \<noteq> [] \<and>
                 (EKind req = [] \<or> fst (ParseOrdinal L (EdgeKind e)) \<in> set (EKind req))))"
    by blast
  from Cons.IH[OF lp] have e': "entries s' = entries s1" "faulty s' = faulty s1"
    and m': "\<forall>u. map_of edgeSets' u \<noteq> None \<longleftrightarrow>
              map_of e1 u \<noteq> None \<or>
              (u \<in> set ts \<and> (\<exists>v. ToVName L u = Some v \<and>
                  (\<exists>e\<in>set (entries s1). Source e = v \<and> EdgeKind e \<noteq> [] \<and>
                     (EKind req = [] \<or> fst (ParseOrdinal L (EdgeKind e)) \<in> set (EKind req)))))"
    by blast+
  show ?case
  proof (intro conjI allI)
    show "entries s' = entries s" "faulty s' = faulty s" using e e' by simp_all
    fix u
    show "map_of edgeSets' u \<noteq> None \<longleftrightarrow>
              map_of edgeSets u \<noteq> None \<or>
              (u \<in> set (t # ts) \<and> (\<exists>v. ToVName L u = Some v \<and>
                  (\<exists>e\<in>set (entries s). Source e = v \<and> EdgeKind e \<noteq> [] \<and>
                     (EKind req = [] \<or> fst (ParseOrdinal L (EdgeKind e)) \<in> set (EKind req)))))"
      using m[rule_format, of u] m'[rule_format, of u] v unfolding e by auto
  qed
qed

lemma Edges_Inr:
  assumes "Edges L req s = (Inr reply, s')"
  shows "\<exists>nodes targetSet s1.
           for_range (edges_ticket L req) (ETicket req) ([], [], []) s = (Inr (EdgeSets reply, nodes, targetSet), s1)"
  using assms
  by (auto simp: Edges_def split: if_splits prod.splits sum.splits)

text \<open>
  Claim C7. When \<open>Edges\<close> returns a reply, a ticket has an edge set in it exactly when
  it is a ticket of the request and some edge entry of its node has a base kind that is
  allowed (or no kind was named). The facts of the node play no part.
\<close>

theorem Edges_edge_sets:
  assumes "Edges L req s = (Inr reply, s')"
  shows "map_of (EdgeSets reply) t \<noteq> None \<longleftrightarrow>
           t \<in> set (ETicket req) \<and>
           (\<exists>v. ToVName L t = Some v \<and>
              (\<exists>e\<in>set (entries s). Source e = v \<and> EdgeKind e \<noteq> [] \<and>
                 (EKind req = [] \<or> fst (ParseOrdinal L (EdgeKind e)) \<in> set (EKind req))))"
proof -
  from Edges_Inr[OF assms] obtain nodes targetSet s1 where
    "for_range (edges_ticket L req) (ETicket req) ([], [], []) s = (Inr (EdgeSets reply, nodes, targetSet), s1)"
    by blast
  from edges_loop_Inr[OF this] show ?thesis by simp
qed

lemma Edges_example: "fst (Edges lib0 req7 store4) = Inr reply7"
  by code_simp

theorem Edges_edge_sets_witness:
  "Edges lib0 req7 store4 = (Inr reply7, snd (Edges lib0 req7 store4)) \<and>
   (map_of (EdgeSets reply7) ''kythe:?path=f#a1'' \<noteq> None) =
     (''kythe:?path=f#a1'' \<in> set (ETicket req7) \<and>
      (\<exists>v. ToVName lib0 ''kythe:?path=f#a1'' = Some v \<and>
         (\<exists>e\<in>set (entries store4). Source e = v \<and> EdgeKind e \<noteq> [] \<and>
            (EKind req7 = [] \<or> fst (ParseOrdinal lib0 (EdgeKind e)) \<in> set (EKind req7))))) \<and>
   map_of (EdgeSets reply7) ''kythe:?path=f#a1'' \<noteq> None \<and>
   (map_of (EdgeSets reply7) ''kythe:?path=f'' \<noteq> None) =
     (''kythe:?path=f'' \<in> set (ETicket req7) \<and>
      (\<exists>v. ToVName lib0 ''kythe:?path=f'' = Some v \<and>
         (\<exists>e\<in>set (entries store4). Source e = v \<and> EdgeKind e \<noteq> [] \<and>
            (EKind req7 = [] \<or> fst (ParseOrdinal lib0 (EdgeKind e)) \<in> set (EKind req7))))) \<and>
   map_of (EdgeSets reply7) ''kythe:?path=f'' = None \<and>
   MatchesAny lib0 ''/kythe/node/kind'' (EFilter req7)"
proof -
  note h = fst_eq_pair[OF Edges_example]
  have a: "map_of (EdgeSets reply7) ''kythe:?path=f#a1'' \<noteq> None"
    and b: "map_of (EdgeSets reply7) ''kythe:?path=f'' = None"
    and c: "MatchesAny lib0 ''/kythe/node/kind'' (EFilter req7)"
    by code_simp+
  show ?thesis
    by (intro conjI h a b c Edges_edge_sets[OF h])
qed

section \<open>The reverse-edge bootstrap\<close>

lemma gs_Scan_Inr:
  "gs_Scan s = (Inr es, s') \<Longrightarrow>
     es = entries s \<and> entries s' = entries s \<and> faulty s' = faulty s \<and> calls s' = calls s @ [ScanCall]"
  by (auto simp: gs_Scan_def logged_def split: if_splits)

lemma add_reverse_None:
  "add_reverse L es counters s = (None, counters', s') \<Longrightarrow>
     entries s' = entries s @ map (reverse_of L) (filter (\<lambda>e. EdgeKind e \<noteq> [] \<and> IsForward L (EdgeKind e)) es)"
proof (induction es arbitrary: counters s)
  case Nil then show ?case by simp
next
  case (Cons e es)
  obtain t a where c: "counters = (t, a)" by (cases counters)
  show ?case
  proof (cases "EdgeKind e \<noteq> [] \<and> IsForward L (EdgeKind e)")
    case True
    let ?s1 = "logged (WriteCall (Target e)) (s\<lparr>entries := entries s @ [reverse_of L e]\<rparr>)"
    from Cons.prems True have "add_reverse L es (Suc t, Suc a) ?s1 = (None, counters', s')"
      unfolding c
      by (auto simp: gs_Write_def written_def reverse_of_def Let_def split: if_splits)
    from Cons.IH[OF this] True show ?thesis by (simp add: logged_def)
  next
    case False
    with Cons.prems have "add_reverse L es (Suc t, a) s = (None, counters', s')"
      unfolding c by (auto simp: Let_def)
    from Cons.IH[OF this] False show ?thesis by simp
  qed
qed

lemma addReverseEdges_None:
  assumes "addReverseEdges L s = (None, s')"
  shows "entries s' = entries s @ map (reverse_of L) (filter (\<lambda>e. EdgeKind e \<noteq> [] \<and> IsForward L (EdgeKind e)) (entries s))"
proof -
  let ?s0 = "log_Printf ''Adding reverse edges'' [] s"
  from assms obtain es s1 c s2 where sc: "gs_Scan ?s0 = (Inr es, s1)"
    and lp: "add_reverse L es (0, 0) s1 = (None, c, s2)"
    and s': "entries s' = entries s2"
    by (auto simp: addReverseEdges_def log_Printf_def split: prod.splits sum.splits)
  from gs_Scan_Inr[OF sc] add_reverse_None[OF lp] s' show ?thesis
    by (simp add: log_Printf_def)
qed

lemma EnsureReverseEdges_adds:
  assumes "EnsureReverseEdges L s = (None, s')"
    and "find IsEdge (entries s) = Some edge"
    and "\<not> IsReverse L (EdgeKind edge)"
    and "\<forall>e\<in>set (entries s). \<not> read_match (Target edge) (Mirror L (EdgeKind edge)) e"
  shows "entries s' = entries s @ map (reverse_of L) (filter (\<lambda>e. EdgeKind e \<noteq> [] \<and> IsForward L (EdgeKind e)) (entries s))"
proof -
  from assms(1) obtain es s1 where sc: "gs_Scan s = (Inr es, s1)"
    by (auto simp: EnsureReverseEdges_def split: prod.splits sum.splits)
  note S = gs_Scan_Inr[OF sc]
  from assms(1-3) sc S obtain found s2 where
    rd: "gs_Read s1 (Target edge) (Mirror L (EdgeKind edge)) = (Inr found, s2)"
    by (auto simp: EnsureReverseEdges_def split: prod.splits sum.splits)
  note R = gs_Read_Inr[OF rd]
  from R S assms(4) have "found = []" by (simp add: filter_empty_conv)
  with assms(1-3) sc S rd have "addReverseEdges L s2 = (None, s')"
    by (simp add: EnsureReverseEdges_def)
  from addReverseEdges_None[OF this] R S show ?thesis by simp
qed

lemma EnsureReverseEdges_first_reverse:
  assumes "find IsEdge (entries s) = Some edge" and "\<not> fails s" and "IsReverse L (EdgeKind edge)"
  shows "EnsureReverseEdges L s = (None, logged ScanCall s)"
  using assms by (simp add: EnsureReverseEdges_def gs_Scan_def)

lemma EnsureReverseEdges_first_mirrored:
  assumes "find IsEdge (entries s) = Some edge" and "\<not> fails s" and "\<not> fails (logged ScanCall s)"
    and "\<not> IsReverse L (EdgeKind edge)"
    and "\<exists>e\<in>set (entries s). read_match (Target edge) (Mirror L (EdgeKind edge)) e"
  shows "EnsureReverseEdges L s
           = (None, logged (ReadCall (Target edge) (Mirror L (EdgeKind edge))) (logged ScanCall s))"
proof -
  from assms(5) have "filter (read_match (Target edge) (Mirror L (EdgeKind edge))) (entries s) \<noteq> []"
    by (simp add: filter_empty_conv)
  with assms(1-4) show ?thesis
    by (simp add: EnsureReverseEdges_def gs_Scan_def gs_Read_def logged_def)
qed

lemma EnsureReverseEdges_all_mirrored:
  assumes "EnsureReverseEdges L s = (None, s')"
    and "find IsEdge (entries s) = Some edge"
    and "\<not> IsReverse L (EdgeKind edge)"
    and "\<forall>e\<in>set (entries s). \<not> read_match (Target edge) (Mirror L (EdgeKind edge)) e"
    and "\<forall>k. k \<noteq> [] \<longrightarrow> IsForward L k \<longrightarrow> \<not> IsForward L (Mirror L k)"
  shows "\<forall>e\<in>set (entries s'). EdgeKind e \<noteq> [] \<and> IsForward L (EdgeKind e) \<longrightarrow>
           (\<exists>r\<in>set (entries s'). Source r = Target e \<and> EdgeKind r = Mirror L (EdgeKind e) \<and>
              Target r = Source e \<and> FactName r = FactName e \<and> FactValue r = FactValue e)"
proof (intro ballI impI)
  fix e
  assume e: "e \<in> set (entries s')" and f: "EdgeKind e \<noteq> [] \<and> IsForward L (EdgeKind e)"
  note E = EnsureReverseEdges_adds[OF assms(1-4)]
  have "e \<in> set (entries s)"
  proof (rule ccontr)
    assume "e \<notin> set (entries s)"
    with e E obtain e0 where "e = reverse_of L e0" "EdgeKind e0 \<noteq> []" "IsForward L (EdgeKind e0)"
      by auto
    with assms(5) f show False by (simp add: reverse_of_def)
  qed
  with f have "reverse_of L e \<in> set (entries s')" unfolding E by simp
  then show "\<exists>r\<in>set (entries s'). Source r = Target e \<and> EdgeKind r = Mirror L (EdgeKind e) \<and>
              Target r = Source e \<and> FactName r = FactName e \<and> FactValue r = FactValue e"
    by (rule bexI[rotated]) (simp add: reverse_of_def)
qed

text \<open>
  Claim C2, as the code has it. The bootstrap looks at one edge only, the first of the
  scan. When that edge is a forward edge and the store has no entry under its target and
  the mirror of its kind, a successful bootstrap leaves a store in which every forward
  edge has its reverse, with the same fact name and value; the mirror of a forward kind
  is taken not to be forward. When the first edge is a reverse edge, the bootstrap
  succeeds after its scan, and when the first edge is a forward edge and the store has an
  entry under its target and the mirror of its kind, the bootstrap succeeds after its
  scan and that one read: in both cases the store is left as it was but for the log of
  these calls, so nothing is written. The scan and the read are taken not to fail.
\<close>

theorem EnsureReverseEdges_mirrors:
  assumes "find IsEdge (entries s) = Some edge"
  shows "(EnsureReverseEdges L s = (None, s') \<and> \<not> IsReverse L (EdgeKind edge) \<and>
          (\<forall>e\<in>set (entries s). \<not> read_match (Target edge) (Mirror L (EdgeKind edge)) e) \<and>
          (\<forall>k. k \<noteq> [] \<longrightarrow> IsForward L k \<longrightarrow> \<not> IsForward L (Mirror L k)) \<longrightarrow>
          (\<forall>e\<in>set (entries s'). EdgeKind e \<noteq> [] \<and> IsForward L (EdgeKind e) \<longrightarrow>
             (\<exists>r\<in>set (entries s'). Source r = Target e \<and> EdgeKind r = Mirror L (EdgeKind e) \<and>
                Target r = Source e \<and> FactName r = FactName e \<and> FactValue r = FactValue e))) \<and>
         (\<not> fails s \<and> IsReverse L (EdgeKind edge) \<longrightarrow>
          EnsureReverseEdges L s = (None, logged ScanCall s)) \<and>
         (\<not> fails s \<and> \<not> fails (logged ScanCall s) \<and> \<not> IsReverse L (EdgeKind edge) \<and>
          (\<exists>e\<in>set (entries s). read_match (Target edge) (Mirror L (EdgeKind edge)) e) \<longrightarrow>
          EnsureReverseEdges L s
            = (None, logged (ReadCall (Target edge) (Mirror L (EdgeKind edge))) (logged ScanCall s)))"
proof (intro conjI impI)
  assume a: "EnsureReverseEdges L s = (None, s') \<and> \<not> IsReverse L (EdgeKind edge) \<and>
          (\<forall>e\<in>set (entries s). \<not> read_match (Target edge) (Mirror L (EdgeKind edge)) e) \<and>
          (\<forall>k. k \<noteq> [] \<longrightarrow> IsForward L k \<longrightarrow> \<not> IsForward L (Mirror L k))"
  show "\<forall>e\<in>set (entries s'). EdgeKind e \<noteq> [] \<and> IsForward L (EdgeKind e) \<longrightarrow>
             (\<exists>r\<in>set (entries s'). Source r = Target e \<and> EdgeKind r = Mirror L (EdgeKind e) \<and>
                Target r = Source e \<and> FactName r = FactName e \<and> FactValue r = FactValue e)"
    by (rule EnsureReverseEdges_all_mirrored[OF a[THEN conjunct1] assms
          a[THEN conjunct2, THEN conjunct1] a[THEN conjunct2, THEN conjunct2, THEN conjunct1]
          a[THEN conjunct2, THEN conjunct2, THEN conjunct2]])
next
  assume a: "\<not> fails s \<and> IsReverse L (EdgeKind edge)"
  show "EnsureReverseEdges L s = (None, logged ScanCall s)"
    by (rule EnsureReverseEdges_first_reverse[OF assms a[THEN conjunct1] a[THEN conjunct2]])
next
  assume a: "\<not> fails s \<and> \<not> fails (logged ScanCall s) \<and> \<not> IsReverse L (EdgeKind edge) \<and>
          (\<exists>e\<in>set (entries s). read_match (Target edge) (Mirror L (EdgeKind edge)) e)"
  show "EnsureReverseEdges L s
            = (None, logged (ReadCall (Target edge) (Mirror L (EdgeKind edge))) (logged ScanCall s))"
    by (rule EnsureReverseEdges_first_mirrored[OF assms a[THEN conjunct1]
          a[THEN conjunct2, THEN conjunct1] a[THEN conjunct2, THEN conjunct2, THEN conjunct1]
          a[THEN conjunct2, THEN conjunct2, THEN conjunct2]])
qed

lemma lib0_mirror:
  "\<forall>k. k \<noteq> [] \<longrightarrow> IsForward lib0 k \<longrightarrow> \<not> IsForward lib0 (Mirror lib0 k)"
  by (simp add: lib0_def edges_IsForward_def edges_IsReverse_def edges_Mirror_def)

lemma store2_unmirrored:
  "\<forall>e\<in>set (entries store2).
     \<not> read_match (Target (edge_entry vA1 ''/kythe/edge/childof'' vF))
         (Mirror lib0 (EdgeKind (edge_entry vA1 ''/kythe/edge/childof'' vF))) e"
  by code_simp

lemma store2m_mirrored:
  "\<exists>e\<in>set (entries store2m).
     read_match (Target (edge_entry vA1 ''/kythe/edge/childof'' vF))
       (Mirror lib0 (EdgeKind (edge_entry vA1 ''/kythe/edge/childof'' vF))) e"
  by code_simp

theorem EnsureReverseEdges_mirrors_witness:
  "(find IsEdge (entries store2) = Some (edge_entry vA1 ''/kythe/edge/childof'' vF) \<and>
    EnsureReverseEdges lib0 store2 = (None, snd (EnsureReverseEdges lib0 store2)) \<and>
    \<not> IsReverse lib0 (EdgeKind (edge_entry vA1 ''/kythe/edge/childof'' vF)) \<and>
    edge_entry vA1 ''/kythe/edge/ref'' vX \<in> set (entries (snd (EnsureReverseEdges lib0 store2))) \<and>
    (\<exists>r\<in>set (entries (snd (EnsureReverseEdges lib0 store2))).
       Source r = Target (edge_entry vA1 ''/kythe/edge/ref'' vX) \<and>
       EdgeKind r = Mirror lib0 (EdgeKind (edge_entry vA1 ''/kythe/edge/ref'' vX)) \<and>
       Target r = Source (edge_entry vA1 ''/kythe/edge/ref'' vX) \<and>
       FactName r = FactName (edge_entry vA1 ''/kythe/edge/ref'' vX) \<and>
       FactValue r = FactValue (edge_entry vA1 ''/kythe/edge/ref'' vX))) \<and>
   (find IsEdge (entries store2r) = Some (edge_entry vF ''%/kythe/edge/childof'' vA1) \<and>
    \<not> fails store2r \<and>
    IsReverse lib0 (EdgeKind (edge_entry vF ''%/kythe/edge/childof'' vA1)) \<and>
    EnsureReverseEdges lib0 store2r = (None, logged ScanCall store2r)) \<and>
   (find IsEdge (entries store2m) = Some (edge_entry vA1 ''/kythe/edge/childof'' vF) \<and>
    \<not> fails store2m \<and> \<not> fails (logged ScanCall store2m) \<and>
    EnsureReverseEdges lib0 store2m
      = (None, logged (ReadCall (Target (edge_entry vA1 ''/kythe/edge/childof'' vF))
                         (Mirror lib0 (EdgeKind (edge_entry vA1 ''/kythe/edge/childof'' vF))))
                 (logged ScanCall store2m)) \<and>
    entries (snd (EnsureReverseEdges lib0 store2m)) = entries store2m \<and>
    calls (snd (EnsureReverseEdges lib0 store2m))
      = [ScanCall, ReadCall vF ''%/kythe/edge/childof''])"
proof -
  have "fst (EnsureReverseEdges lib0 store2) = None" by code_simp
  note h = fst_eq_pair[OF this]
  have a: "find IsEdge (entries store2) = Some (edge_entry vA1 ''/kythe/edge/childof'' vF)"
    and b: "\<not> IsReverse lib0 (EdgeKind (edge_entry vA1 ''/kythe/edge/childof'' vF))"
    and m: "edge_entry vA1 ''/kythe/edge/ref'' vX \<in> set (entries (snd (EnsureReverseEdges lib0 store2)))"
    and f: "EdgeKind (edge_entry vA1 ''/kythe/edge/ref'' vX) \<noteq> [] \<and>
            IsForward lib0 (EdgeKind (edge_entry vA1 ''/kythe/edge/ref'' vX))"
    by code_simp+
  note T1 = EnsureReverseEdges_mirrors[OF a, THEN conjunct1, rule_format,
              OF conjI[OF h conjI[OF b conjI[OF store2_unmirrored lib0_mirror]]] m f]
  have ar: "find IsEdge (entries store2r) = Some (edge_entry vF ''%/kythe/edge/childof'' vA1)"
    and fr: "\<not> fails store2r"
    and br: "IsReverse lib0 (EdgeKind (edge_entry vF ''%/kythe/edge/childof'' vA1))"
    by code_simp+
  note T2 = EnsureReverseEdges_mirrors[OF ar, THEN conjunct2, THEN conjunct1, rule_format,
              OF conjI[OF fr br]]
  have am: "find IsEdge (entries store2m) = Some (edge_entry vA1 ''/kythe/edge/childof'' vF)"
    and fm: "\<not> fails store2m" and fm': "\<not> fails (logged ScanCall store2m)"
    and em: "entries (snd (EnsureReverseEdges lib0 store2m)) = entries store2m"
    and cm: "calls (snd (EnsureReverseEdges lib0 store2m)) = [ScanCall, ReadCall vF ''%/kythe/edge/childof'']"
    by code_simp+
  note T3 = EnsureReverseEdges_mirrors[OF am, THEN conjunct2, THEN conjunct2, rule_format,
              OF conjI[OF fm conjI[OF fm' conjI[OF b store2m_mirrored]]]]
  show ?thesis
    by (intro conjI a h b m T1 ar fr br T2 am fm fm' T3 em cm)
qed

text \<open>
  Claim C2, as it is written, fails: the first edge of this store is a reverse edge, so
  the bootstrap returns at once with success and writes nothing, and the forward edge of
  the store has no reverse.
\<close>

theorem EnsureReverseEdges_counterexample:
  "fst (EnsureReverseEdges lib0 store2r) = None \<and>
   (\<exists>e\<in>set (entries (snd (EnsureReverseEdges lib0 store2r))).
      EdgeKind e \<noteq> [] \<and> IsForward lib0 (EdgeKind e) \<and>
      \<not> (\<exists>r\<in>set (entries (snd (EnsureReverseEdges lib0 store2r))).
            Source r = Target e \<and> EdgeKind r = Mirror lib0 (EdgeKind e) \<and> Target r = Source e \<and>
            FactName r = FactName e \<and> FactValue r = FactValue e))"
  by code_simp

section \<open>Invalid requests\<close>












section \<open>CrossReferences: the related nodes\<close>

lemma for_range_invariant_aux:
  "for_range body xs a s = (Inr r, s') \<Longrightarrow> P a \<Longrightarrow>
   (\<forall>x\<in>set xs. \<forall>a s a' s'. P a \<longrightarrow> body x a s = (Inr a', s') \<longrightarrow> P a') \<Longrightarrow> P r"
proof (induction xs arbitrary: a s)
  case Nil then show ?case by simp
next
  case (Cons x xs)
  from Cons.prems(1) obtain a1 s1 where st: "body x a s = (Inr a1, s1)"
    and lp: "for_range body xs a1 s1 = (Inr r, s')"
    by (auto split: prod.splits sum.splits)
  have "x \<in> set (x # xs)" by simp
  from bspec[OF Cons.prems(3) this]
  have step: "\<forall>a s a' s'. P a \<longrightarrow> body x a s = (Inr a', s') \<longrightarrow> P a'" .
  have rest: "\<forall>y\<in>set xs. \<forall>a s a' s'. P a \<longrightarrow> body y a s = (Inr a', s') \<longrightarrow> P a'"
  proof
    fix y assume "y \<in> set xs"
    then have "y \<in> set (x # xs)" by simp
    from bspec[OF Cons.prems(3) this]
    show "\<forall>a s a' s'. P a \<longrightarrow> body y a s = (Inr a', s') \<longrightarrow> P a'" .
  qed
  from step[rule_format, OF Cons.prems(2) st] have "P a1" .
  from Cons.IH[OF lp this rest] show ?case .
qed

lemma for_range_invariant:
  assumes "for_range body xs a s = (Inr r, s')" and "P a"
    and "\<And>x a s a' s'. P a \<Longrightarrow> body x a s = (Inr a', s') \<Longrightarrow> P a'"
  shows "P r"
  by (rule for_range_invariant_aux[where P = P and body = body, OF assms(1,2)])
     (use assms(3) in blast)

lemma for_range_Inl:
  "for_range body xs a s = (Inl e, s') \<Longrightarrow> \<exists>x\<in>set xs. \<exists>a0 s0. body x a0 s0 = (Inl e, s')"
proof (induction xs arbitrary: a s)
  case Nil then show ?case by simp
next
  case (Cons x xs)
  show ?case
  proof (cases "body x a s")
    case (Pair r s1)
    show ?thesis
    proof (cases r)
      case (Inl e1)
      with Pair Cons.prems have "body x a s = (Inl e, s')" by simp
      then show ?thesis by auto
    next
      case (Inr a1)
      with Pair Cons.prems have "for_range body xs a1 s1 = (Inl e, s')" by simp
      from Cons.IH[OF this] show ?thesis by auto
    qed
  qed
qed

lemma update_set: "x \<in> set (AList.update k v al) \<Longrightarrow> x = (k, v) \<or> x \<in> set al"
  by (induction al) (auto split: if_splits)

lemma Edges_page_token: "EPageToken req \<noteq> [] \<Longrightarrow> \<exists>e. Edges L req s = (Inl e, s)"
  by (auto simp: Edges_def)

lemma xref_group_related:
  assumes "xref_group L req g (xr, count, files, []) s = (Inr (xr', count', files', rel'), s')"
  shows "rel' = [] \<and> CRelatedNode xr' = CRelatedNode xr"
  using assms
  by (cases g) (auto simp: xref_group_def split: if_splits prod.splits sum.splits)

lemma xref_group_error:
  "xref_group L req g acc s = (Inl e, s') \<Longrightarrow> \<exists>m e'. e = Wrapped m e'"
  by (cases g; cases acc) (auto simp: xref_group_def split: if_splits prod.splits sum.splits)

lemma xref_groups_related:
  assumes "for_range (xref_group L req) groups (xr, count, files, []) s = (Inr (xr', count', files', rel'), s')"
  shows "rel' = [] \<and> CRelatedNode xr' = CRelatedNode xr"
proof -
  have "(\<lambda>a. snd (snd (snd a)) = [] \<and> CRelatedNode (fst a) = CRelatedNode xr) (xr', count', files', rel')"
  proof (rule for_range_invariant[OF assms])
    show "snd (snd (snd (xr, count, files, []))) = [] \<and>
          CRelatedNode (fst (xr, count, files, [])) = CRelatedNode xr" by simp
  next
    fix x a s a' s'
    assume P: "snd (snd (snd a)) = [] \<and> CRelatedNode (fst a) = CRelatedNode xr"
      and b: "xref_group L req x a s = (Inr a', s')"
    obtain x1 c1 f1 r1 where a: "a = (x1, c1, f1, r1)" by (cases a)
    obtain x2 c2 f2 r2 where a': "a' = (x2, c2, f2, r2)" by (cases a')
    from P a have "r1 = []" by simp
    from xref_group_related[OF b[unfolded a a' this]] P a a'
    show "snd (snd (snd a')) = [] \<and> CRelatedNode (fst a') = CRelatedNode xr" by simp
  qed
  then show ?thesis by simp
qed

lemma xref_source_related:
  assumes "xref_source L req es (crossReferences, tot, files, []) s
             = (Inr (crossReferences', tot', files', rel'), s')"
    and "\<forall>x\<in>set crossReferences. CRelatedNode (snd x) = []"
  shows "rel' = [] \<and> (\<forall>x\<in>set crossReferences'. CRelatedNode (snd x) = [])"
proof -
  obtain source groups where es: "es = (source, groups)" by (cases es)
  let ?xr = "case map_of crossReferences source of
                     Some x \<Rightarrow> x
                   | None \<Rightarrow> \<lparr>CTicket = source, Definition = [], CReference = [],
                               Documentation = [], CRelatedNode = []\<rparr>"
  have xr0: "CRelatedNode ?xr = []"
  proof (cases "map_of crossReferences source")
    case None then show ?thesis by simp
  next
    case (Some x)
    then have "(source, x) \<in> set crossReferences" by (rule map_of_SomeD)
    with assms(2) Some show ?thesis by auto
  qed
  obtain r1 s1 where fr: "for_range (xref_group L req) groups (?xr, 0, files, []) s = (r1, s1)"
    by (cases "for_range (xref_group L req) groups (?xr, 0, files, []) s")
  from assms(1) fr obtain xr' count f1 rel1 where r1: "r1 = Inr (xr', count, f1, rel1)"
    and res: "(crossReferences', tot', files', rel') =
       (if count > 0 then (AList.update (CTicket xr') xr' crossReferences, tot + count, f1, rel1)
        else (crossReferences, tot, f1, rel1))"
    unfolding es xref_source_def
    by (cases r1) (auto simp: Let_def split: if_splits)
  from xref_groups_related[OF fr[unfolded r1]] xr0 have rel1: "rel1 = []"
    and x': "CRelatedNode xr' = []" by simp_all
  from res rel1 have "rel' = []" by (auto split: if_splits)
  moreover have "\<forall>x\<in>set crossReferences'. CRelatedNode (snd x) = []"
  proof
    fix x assume "x \<in> set crossReferences'"
    with res have "x \<in> set crossReferences \<or> x \<in> set (AList.update (CTicket xr') xr' crossReferences)"
      by (auto split: if_splits)
    with update_set[of x "CTicket xr'" xr' crossReferences] assms(2) x'
    show "CRelatedNode (snd x) = []" by auto
  qed
  ultimately show ?thesis by simp
qed

lemma xref_source_error:
  assumes "xref_source L req es acc s = (Inl e, s')"
  shows "\<exists>m e'. e = Wrapped m e'"
proof -
  obtain source groups where es: "es = (source, groups)" by (cases es)
  obtain c t f r where acc: "acc = (c, t, f, r)" by (cases acc)
  from assms obtain a0 where "for_range (xref_group L req) groups a0 s = (Inl e, s')"
    unfolding es acc xref_source_def
    by (auto simp: Let_def split: prod.splits sum.splits if_splits)
  from for_range_Inl[OF this] xref_group_error show ?thesis by blast
qed

lemma xref_sources_related:
  assumes "for_range (xref_source L req) sets (crossReferences, tot, files, []) s
             = (Inr (crossReferences', tot', files', rel'), s')"
    and "\<forall>x\<in>set crossReferences. CRelatedNode (snd x) = []"
  shows "rel' = [] \<and> (\<forall>x\<in>set crossReferences'. CRelatedNode (snd x) = [])"
proof -
  have "(\<lambda>a. snd (snd (snd a)) = [] \<and> (\<forall>x\<in>set (fst a). CRelatedNode (snd x) = []))
          (crossReferences', tot', files', rel')"
  proof (rule for_range_invariant[OF assms(1)])
    show "snd (snd (snd (crossReferences, tot, files, []))) = [] \<and>
          (\<forall>x\<in>set (fst (crossReferences, tot, files, [])). CRelatedNode (snd x) = [])"
      using assms(2) by simp
  next
    fix x a s a' s'
    assume P: "snd (snd (snd a)) = [] \<and> (\<forall>x\<in>set (fst a). CRelatedNode (snd x) = [])"
      and b: "xref_source L req x a s = (Inr a', s')"
    obtain x1 c1 f1 r1 where a: "a = (x1, c1, f1, r1)" by (cases a)
    obtain x2 c2 f2 r2 where a': "a' = (x2, c2, f2, r2)" by (cases a')
    from P a have r1: "r1 = []" and x1: "\<forall>x\<in>set x1. CRelatedNode (snd x) = []" by simp_all
    from xref_source_related[OF b[unfolded a a' r1] x1] a'
    show "snd (snd (snd a')) = [] \<and> (\<forall>x\<in>set (fst a'). CRelatedNode (snd x) = [])" by simp
  qed
  then show ?thesis by simp
qed

text \<open>The loop over the pages goes round once: \<open>Edges\<close> refuses every page token.\<close>

lemma xref_pages_once:
  assumes "XTicket req \<noteq> []"
  shows "xref_pages L req eReply nextPageToken acc s =
     (case for_range (xref_source L req) (EdgeSets eReply) acc s of
        (Inl err, s1) \<Rightarrow> (Inl err, s1)
      | (Inr acc', s1) \<Rightarrow>
          if nextPageToken = [] \<or> fst (snd acc') > 0 then (Inr (acc', nextPageToken), s1)
          else (Inl (Wrapped ''error getting edges for cross-references''
                       (Failure ''UNIMPLEMENTED: page_token'')),
                log_Printf ''Extra CrossReferences Edges call: '' [ArgString nextPageToken] s1))"
proof -
  have E: "nextPageToken \<noteq> [] \<Longrightarrow> Edges L (page_request req nextPageToken) s1
          = (Inl (Failure ''UNIMPLEMENTED: page_token''), s1)" for s1
    using assms by (simp add: Edges_def page_request_def)
  show ?thesis
    by (subst xref_pages.simps) (auto simp: E split: prod.splits sum.splits)
qed

lemma xref_pages_related:
  assumes "XTicket req \<noteq> []"
    and "xref_pages L req eReply nextPageToken ([], 0, [], []) s
           = (Inr ((crossReferences, tot, files, rel), token), s')"
  shows "rel = [] \<and> (\<forall>x\<in>set crossReferences. CRelatedNode (snd x) = [])"
proof -
  from assms(2) obtain s1 where
    "for_range (xref_source L req) (EdgeSets eReply) ([], 0, [], []) s
       = (Inr (crossReferences, tot, files, rel), s1)"
    unfolding xref_pages_once[OF assms(1)]
    by (auto split: prod.splits sum.splits if_splits)
  from xref_sources_related[OF this] show ?thesis by simp
qed

lemma xref_pages_error:
  assumes "XTicket req \<noteq> []"
    and "xref_pages L req eReply nextPageToken acc s = (Inl e, s')"
  shows "\<exists>m e'. e = Wrapped m e'"
proof (cases "for_range (xref_source L req) (EdgeSets eReply) acc s")
  case (Pair r s1)
  show ?thesis
  proof (cases r)
    case (Inl e1)
    with Pair assms(2) have "for_range (xref_source L req) (EdgeSets eReply) acc s = (Inl e, s')"
      unfolding xref_pages_once[OF assms(1)] by simp
    from for_range_Inl[OF this] xref_source_error show ?thesis by blast
  next
    case (Inr a1)
    with Pair assms(2) show ?thesis
      unfolding xref_pages_once[OF assms(1)] by (auto split: if_splits)
  qed
qed

text \<open>
  Claim C9. \<open>allRelatedNodes\<close> starts empty and grows only in the branch that asks for
  it not to be empty, so it stays empty: no reply has a related node, the final fetch of
  related nodes is never made and the \<open>Nodes\<close> map of the reply is as it was set up,
  \<^verbatim>\<open>nil\<close> for a request without a filter and empty for one with a filter. No request and
  no store make \<open>CrossReferences\<close> panic with an assignment to an entry of a nil map.
\<close>

theorem CrossReferences_no_related_nodes:
  "fst (CrossReferences L req s) \<noteq> Inl (Panic ''assignment to entry in nil map'') \<and>
   (\<forall>reply. fst (CrossReferences L req s) = Inr reply \<longrightarrow>
      XNodes reply = (if XFilter req = [] then None else Some []) \<and>
      (\<forall>x\<in>set (XCrossReferences reply). CRelatedNode (snd x) = []))"
proof (cases "XTicket req = []")
  case True
  then show ?thesis by (simp add: CrossReferences_def)
next
  case ne: False
  show ?thesis
  proof (cases "Edges L (page_request req (XPageToken req)) s")
    case (Pair r1 s1)
    show ?thesis
    proof (cases r1)
      case (Inl e)
      with Pair ne show ?thesis by (simp add: CrossReferences_def)
    next
      case (Inr eReply)
      note ed = Pair[unfolded Inr]
      show ?thesis
      proof (cases "xref_pages L req eReply (ENextPageToken eReply) ([], 0, [], []) s1")
        case (Pair r2 s2)
        show ?thesis
        proof (cases r2)
          case (Inl e)
          from xref_pages_error[OF ne Pair[unfolded Inl]] obtain m e' where "e = Wrapped m e'"
            by blast
          with ne ed Pair Inl show ?thesis by (simp add: CrossReferences_def)
        next
          case (Inr res)
          obtain crossReferences tot files rel token where
            res: "res = ((crossReferences, tot, files, rel), token)"
            by (cases res) auto
          from xref_pages_related[OF ne Pair[unfolded Inr res]]
          have rel: "rel = []" and cr: "\<forall>x\<in>set crossReferences. CRelatedNode (snd x) = []"
            by simp_all
          from ne ed Pair Inr res rel
          have "CrossReferences L req s =
                  (Inr \<lparr>XCrossReferences = crossReferences,
                        XNodes = (if XFilter req \<noteq> [] then Some [] else None),
                        XNextPageToken = token\<rparr>, s2)"
            by (simp add: CrossReferences_def)
          with cr show ?thesis by simp
        qed
      qed
    qed
  qed
qed

lemma CrossReferences_example_nofilter:
  "fst (CrossReferences lib0 req5n store5)
     = Inr \<lparr>XCrossReferences = [(''kythe:#x'', set5)], XNodes = None, XNextPageToken = []\<rparr>"
  by code_simp

theorem CrossReferences_no_related_nodes_witness:
  "fst (CrossReferences lib0 req5n store5)
     = Inr \<lparr>XCrossReferences = [(''kythe:#x'', set5)], XNodes = None, XNextPageToken = []\<rparr> \<and>
   fst (CrossReferences lib0 req5n store5) \<noteq> Inl (Panic ''assignment to entry in nil map'') \<and>
   XNodes \<lparr>XCrossReferences = [(''kythe:#x'', set5)], XNodes = None, XNextPageToken = []\<rparr>
     = (if XFilter req5n = [] then None else Some []) \<and>
   (''kythe:#x'', set5)
     \<in> set (XCrossReferences \<lparr>XCrossReferences = [(''kythe:#x'', set5)], XNodes = None,
                                XNextPageToken = []\<rparr>) \<and>
   CRelatedNode (snd (''kythe:#x'', set5)) = []"
proof -
  note h = CrossReferences_example_nofilter
  note T = CrossReferences_no_related_nodes[of lib0 req5n store5]
  note T1 = T[THEN conjunct1]
  note T2 = T[THEN conjunct2, rule_format, OF h, THEN conjunct1]
  note T3 = T[THEN conjunct2, rule_format, OF h, THEN conjunct2]
  have m: "(''kythe:#x'', set5)
     \<in> set (XCrossReferences \<lparr>XCrossReferences = [(''kythe:#x'', set5)], XNodes = None,
                                XNextPageToken = []\<rparr>)"
    by simp
  show ?thesis
    by (intro conjI h T1 T2 m T3[rule_format, OF m])
qed

text \<open>
  Claim C1 at scenario S5. The request has a filter, and the \<^verbatim>\<open>generates\<close> edge is
  neither a definition, a reference or a documentation kind nor an anchor-edge kind. The
  reply has the first anchor under the definitions and the second under the references,
  and no related node: the node the \<^verbatim>\<open>generates\<close> edge leads to is missing.
\<close>

theorem CrossReferences_S5_related_node_missing:
  "XFilter req5 \<noteq> [] \<and>
   \<not> IsDefKind lib0 (XDefinitionKind req5) ''/kythe/edge/generates'' False \<and>
   \<not> IsRefKind lib0 (XReferenceKind req5) ''/kythe/edge/generates'' \<and>
   \<not> IsDocKind lib0 (XDocumentationKind req5) ''/kythe/edge/generates'' \<and>
   \<not> IsAnchorEdge lib0 ''/kythe/edge/generates'' \<and>
   fst (CrossReferences lib0 req5 store5)
     = Inr \<lparr>XCrossReferences = [(''kythe:#x'', set5)], XNodes = Some [], XNextPageToken = []\<rparr> \<and>
   map ATicket (Definition set5) = [''kythe:?path=f#a1''] \<and>
   map ATicket (CReference set5) = [''kythe:?path=f#a2''] \<and>
   CRelatedNode set5 = []"
  by code_simp

section \<open>Decorations: the anchors of a file location\<close>

lemma gs_Read_frame:
  "gs_Read s v k = (r, s') \<Longrightarrow> entries s' = entries s \<and> log_lines s' = log_lines s \<and> faulty s' = faulty s"
  by (auto simp: gs_Read_def logged_def split: if_splits)

lemma nodes_loop_frame:
  "nodes_loop L p tvs nodes s = (r, s') \<Longrightarrow> entries s' = entries s \<and> log_lines s' = log_lines s"
proof (induction tvs arbitrary: nodes s)
  case Nil then show ?case by simp
next
  case (Cons tv tvs)
  obtain t0 v0 where tv: "tv = (t0, v0)" by (cases tv)
  obtain r1 s1 where rd: "gs_Read s v0 [] = (r1, s1)" by (cases "gs_Read s v0 []")
  note F = gs_Read_frame[OF rd]
  show ?case
  proof (cases r1)
    case (Inl e)
    with Cons.prems rd tv F show ?thesis by auto
  next
    case (Inr es)
    with Cons.prems rd tv have
      "nodes_loop L p tvs (if nodes_visit L p es [] \<noteq> [] then AList.update t0 (nodes_visit L p es []) nodes else nodes) s1 = (r, s')"
      by (simp add: Let_def)
    from Cons.IH[OF this] F show ?thesis by simp
  qed
qed

lemma Nodes_frame:
  "Nodes L req s = (r, s') \<Longrightarrow> entries s' = entries s \<and> log_lines s' = log_lines s"
  by (auto simp: Nodes_def split: sum.splits dest: nodes_loop_frame)

lemma Nodes_single:
  assumes "Nodes L \<lparr>NTicket = [ticket], NFilter = []\<rparr> s = (Inr m, s1)" and "map_of m ticket = Some node"
  shows "\<exists>v. ToVName L ticket = Some v \<and> node = nodes_visit L [] (filter (read_match v []) (entries s)) []"
  using Nodes_Some[OF assms] by auto

lemma getEdges_Inr:
  "getEdges L s node pred = (Inr ts, s') \<Longrightarrow>
     ts = edge_targets L (entries s) node pred \<and> entries s' = entries s \<and> log_lines s' = log_lines s"
  by (auto simp: getEdges_def edge_targets_def split: prod.splits sum.splits dest: gs_Read_Inr gs_Read_frame)

lemma node_fact_is_fact:
  assumes "node_fact_is s v name val"
  shows "fact (nodes_visit L [] (filter (read_match v []) (entries s)) []) name = val"
proof -
  let ?node = "nodes_visit L [] (filter (read_match v []) (entries s)) []"
  from assms have "name \<in> fst ` set ?node"
    unfolding nodes_visit_dom node_fact_is_def by (auto simp: read_match_def)
  then obtain val' where m: "map_of ?node name = Some val'"
    by (metis domD dom_map_of_conv_image_fst)
  from nodes_visit_val[OF m] assms have "val' = val"
    by (auto simp: node_fact_is_def read_match_def)
  with m show ?thesis by (simp add: fact_def)
qed

lemma span_check_file: "LocKind loc = Location_FILE \<Longrightarrow> span_check L req loc a b = Inr InWindow"
  by (simp add: span_check_def)

lemma decor_child_Nodes:
  assumes "decor_child L req loc txt c (n, r, t) s = (Inr acc', s')"
  obtains m s1 node v where "Nodes L \<lparr>NTicket = [ToString L (TTarget c)], NFilter = []\<rparr> s = (Inr m, s1)"
    and "length m = 1" and "map_of m (ToString L (TTarget c)) = Some node"
    and "ToVName L (ToString L (TTarget c)) = Some v"
    and "node = nodes_visit L [] (filter (read_match v []) (entries s)) []"
    and "entries s1 = entries s" and "log_lines s1 = log_lines s"
proof -
  from assms obtain m s1 where N: "Nodes L \<lparr>NTicket = [ToString L (TTarget c)], NFilter = []\<rparr> s = (Inr m, s1)"
    by (auto simp: decor_child_def Let_def split: prod.splits sum.splits)
  with assms have l: "length m = 1"
    by (auto simp: decor_child_def Let_def split: if_splits)
  with assms N obtain node where m: "map_of m (ToString L (TTarget c)) = Some node"
    by (auto simp: decor_child_def Let_def split: option.splits)
  from Nodes_single[OF N m] obtain v where v: "ToVName L (ToString L (TTarget c)) = Some v"
    "node = nodes_visit L [] (filter (read_match v []) (entries s)) []" by blast
  from Nodes_frame[OF N] have "entries s1 = entries s" "log_lines s1 = log_lines s" by simp_all
  with N l m v that show ?thesis by blast
qed

text \<open>What is left of the body of the loop once the node of the anchor is known.\<close>

lemma decor_child_rest:
  assumes "decor_child L req loc txt c (n, r, t) s = (Inr acc', s')"
    and "Nodes L \<lparr>NTicket = [ToString L (TTarget c)], NFilter = []\<rparr> s = (Inr m, s1)"
    and "length m = 1" and "map_of m (ToString L (TTarget c)) = Some node"
    and "fact node facts_NodeKind = nodes_Anchor L"
    and "Atoi (fact node facts_AnchorStart) = Some a" and "Atoi (fact node facts_AnchorEnd) = Some b"
    and "LocKind loc = Location_FILE"
  shows "\<exists>s2. getEdges L s1 (TTarget c) (\<lambda>e. IsForward L (EdgeKind e) \<and> EdgeKind e \<noteq> edges_ChildOf L)
               = (Inr (edge_targets L (entries s1) (TTarget c)
                         (\<lambda>e. IsForward L (EdgeKind e) \<and> EdgeKind e \<noteq> edges_ChildOf L)), s2) \<and>
           entries s2 = entries s1 \<and> log_lines s2 = log_lines s1 \<and>
           (acc', s') =
             (let targets = edge_targets L (entries s1) (TTarget c)
                         (\<lambda>e. IsForward L (EdgeKind e) \<and> EdgeKind e \<noteq> edges_ChildOf L)
              in if targets = [] then
                   ((n, r, t), log_Printf ''Anchor missing forward edges: {%+v}'' [ArgVName (TTarget c)] s2)
                 else
                   (((case filterNode L (DFilter req) node of
                        None \<Rightarrow> n
                      | Some x \<Rightarrow> AList.update (ToString L (TTarget c)) x n),
                     r @ map (make_reference L txt (ToString L (TTarget c)) a b) targets,
                     set_Add (map (\<lambda>e. ToString L (TTarget e)) targets) t), s2))"
proof -
  let ?pred = "\<lambda>e. IsForward L (EdgeKind e) \<and> EdgeKind e \<noteq> edges_ChildOf L"
  obtain g s2 where G: "getEdges L s1 (TTarget c) ?pred = (g, s2)"
    by (cases "getEdges L s1 (TTarget c) ?pred")
  from assms G obtain ts where g: "g = Inr ts"
    by (cases g) (auto simp: decor_child_def Let_def span_check_file)
  from getEdges_Inr[OF G[unfolded g]] have ts: "ts = edge_targets L (entries s1) (TTarget c) ?pred"
    and f: "entries s2 = entries s1" "log_lines s2 = log_lines s1" by simp_all
  from assms G g have "(acc', s') =
             (if ts = [] then
                   ((n, r, t), log_Printf ''Anchor missing forward edges: {%+v}'' [ArgVName (TTarget c)] s2)
                 else
                   (((case filterNode L (DFilter req) node of
                        None \<Rightarrow> n
                      | Some x \<Rightarrow> AList.update (ToString L (TTarget c)) x n),
                     r @ map (make_reference L txt (ToString L (TTarget c)) a b) ts,
                     set_Add (map (\<lambda>e. ToString L (TTarget e)) ts) t), s2))"
    by (auto simp: decor_child_def Let_def span_check_file)
  with G g ts f show ?thesis by (simp add: Let_def)
qed

lemma for_range_append:
  "for_range body (xs @ ys) a s =
     (case for_range body xs a s of
        (Inl e, s') \<Rightarrow> (Inl e, s')
      | (Inr a', s') \<Rightarrow> for_range body ys a' s')"
  by (induction xs arbitrary: a s) (auto split: prod.splits sum.splits)

text \<open>
  One round of the loop over the children, for a file location, seen from an anchor whose
  node is an anchor with offsets that parse and which has a forward edge: the round keeps
  the references so far, and a line it logs is not about that anchor and is not about a
  span.
\<close>

lemma decor_child_any:
  assumes st: "decor_child L req loc txt c (n, r, t) s = (Inr (n', r', t'), s')"
    and fl: "LocKind loc = Location_FILE"
    and av: "ToVName L (ToString L anchor) = Some av"
    and fa: "Atoi (fact (nodes_visit L [] (filter (read_match av []) (entries s)) []) facts_AnchorStart) = Some a"
    and fb: "Atoi (fact (nodes_visit L [] (filter (read_match av []) (entries s)) []) facts_AnchorEnd) = Some b"
    and tg: "edge_targets L (entries s) anchor
               (\<lambda>e. IsForward L (EdgeKind e) \<and> EdgeKind e \<noteq> edges_ChildOf L) \<noteq> []"
  shows "entries s' = entries s \<and> set r \<subseteq> set r' \<and>
         (\<exists>new. log_lines s' = log_lines s @ new \<and>
            (\<forall>l\<in>set new. fst l \<noteq> ''Invalid anchor offset span %d:%d'' \<and>
               ArgVName anchor \<notin> set (snd l) \<and>
               (\<forall>v err. snd l \<noteq> [ArgString v, ArgString (ToString L anchor), err])))"
proof -
  let ?ticket = "ToString L (TTarget c)"
  from st obtain m s1 node v where
    N: "Nodes L \<lparr>NTicket = [?ticket], NFilter = []\<rparr> s = (Inr m, s1)"
    and l: "length m = 1" and m: "map_of m ?ticket = Some node"
    and v: "ToVName L ?ticket = Some v"
    and node: "node = nodes_visit L [] (filter (read_match v []) (entries s)) []"
    and e1: "entries s1 = entries s" and l1: "log_lines s1 = log_lines s"
    by (rule decor_child_Nodes)
  have same: "?ticket = ToString L anchor \<Longrightarrow>
                Atoi (fact node facts_AnchorStart) = Some a \<and> Atoi (fact node facts_AnchorEnd) = Some b"
    using v av fa fb node by simp
  show ?thesis
  proof (cases "fact node facts_NodeKind = nodes_Anchor L")
    case False
    with st N l m have "(n', r', t') = (n, r, t)" "s' = s1"
      by (simp_all add: decor_child_def Let_def)
    with e1 l1 show ?thesis by simp
  next
    case kind: True
    show ?thesis
    proof (cases "Atoi (fact node facts_AnchorStart)")
      case None
      with st N l m kind have r: "(n', r', t') = (n, r, t)"
        and s': "s' = log_Printf ''Invalid anchor start offset %q for node %q: %v''
                        [ArgString (fact node facts_AnchorStart), ArgString ?ticket,
                         ArgError (LibraryError ''strconv.Atoi'')] s1"
        by (simp_all add: decor_child_def Let_def)
      from same None have "?ticket \<noteq> ToString L anchor" by auto
      with r s' e1 l1 show ?thesis by (simp add: log_Printf_def)
    next
      case a': (Some a')
      show ?thesis
      proof (cases "Atoi (fact node facts_AnchorEnd)")
        case None
        with st N l m kind a' have r: "(n', r', t') = (n, r, t)"
          and s': "s' = log_Printf ''Invalid anchor end offset %q for node %q: %v''
                        [ArgString (fact node facts_AnchorEnd), ArgString ?ticket,
                         ArgError (LibraryError ''strconv.Atoi'')] s1"
          by (simp_all add: decor_child_def Let_def)
        from same None have "?ticket \<noteq> ToString L anchor" by auto
        with r s' e1 l1 show ?thesis by (simp add: log_Printf_def)
      next
        case b': (Some b')
        let ?targets = "edge_targets L (entries s1) (TTarget c)
                         (\<lambda>e. IsForward L (EdgeKind e) \<and> EdgeKind e \<noteq> edges_ChildOf L)"
        from decor_child_rest[OF st N l m kind a' b' fl] obtain s2 where
          e2: "entries s2 = entries s1" and l2: "log_lines s2 = log_lines s1"
          and res: "((n', r', t'), s') =
             (if ?targets = [] then
                   ((n, r, t), log_Printf ''Anchor missing forward edges: {%+v}'' [ArgVName (TTarget c)] s2)
                 else
                   (((case filterNode L (DFilter req) node of
                        None \<Rightarrow> n
                      | Some x \<Rightarrow> AList.update (ToString L (TTarget c)) x n),
                     r @ map (make_reference L txt (ToString L (TTarget c)) a' b') ?targets,
                     set_Add (map (\<lambda>e. ToString L (TTarget e)) ?targets) t), s2))"
          by (auto simp: Let_def)
        show ?thesis
        proof (cases "?targets = []")
          case True
          with tg e1 have "TTarget c \<noteq> anchor" by auto
          with res True e1 e2 l1 l2 show ?thesis by (simp add: log_Printf_def)
        next
          case False
          with res e1 e2 l1 l2 show ?thesis by auto
        qed
      qed
    qed
  qed
qed

text \<open>The round for the anchor itself appends a reference for each of its forward edges.\<close>

lemma decor_child_good:
  assumes st: "decor_child L req loc txt c (n, r, t) s = (Inr (n', r', t'), s')"
    and fl: "LocKind loc = Location_FILE"
    and av: "ToVName L (ToString L (TTarget c)) = Some av"
    and fk: "fact (nodes_visit L [] (filter (read_match av []) (entries s)) []) facts_NodeKind = nodes_Anchor L"
    and fa: "Atoi (fact (nodes_visit L [] (filter (read_match av []) (entries s)) []) facts_AnchorStart) = Some a"
    and fb: "Atoi (fact (nodes_visit L [] (filter (read_match av []) (entries s)) []) facts_AnchorEnd) = Some b"
    and tg: "edge_targets L (entries s) (TTarget c)
               (\<lambda>e. IsForward L (EdgeKind e) \<and> EdgeKind e \<noteq> edges_ChildOf L) \<noteq> []"
  shows "r' = r @ map (make_reference L txt (ToString L (TTarget c)) a b)
                    (edge_targets L (entries s) (TTarget c)
                       (\<lambda>e. IsForward L (EdgeKind e) \<and> EdgeKind e \<noteq> edges_ChildOf L))"
proof -
  let ?ticket = "ToString L (TTarget c)"
  from st obtain m s1 node v where
    N: "Nodes L \<lparr>NTicket = [?ticket], NFilter = []\<rparr> s = (Inr m, s1)"
    and l: "length m = 1" and m: "map_of m ?ticket = Some node"
    and v: "ToVName L ?ticket = Some v"
    and node: "node = nodes_visit L [] (filter (read_match v []) (entries s)) []"
    and e1: "entries s1 = entries s" and l1: "log_lines s1 = log_lines s"
    by (rule decor_child_Nodes)
  from v av node fk fa fb have kind: "fact node facts_NodeKind = nodes_Anchor L"
    and a': "Atoi (fact node facts_AnchorStart) = Some a"
    and b': "Atoi (fact node facts_AnchorEnd) = Some b" by simp_all
  from decor_child_rest[OF st N l m kind a' b' fl] tg e1 show ?thesis
    by (auto simp: Let_def)
qed

lemma decor_children:
  assumes "for_range (decor_child L req loc txt) cs (n, r, t) s = (Inr (n', r', t'), s')"
    and "LocKind loc = Location_FILE"
    and "ToVName L (ToString L anchor) = Some av"
    and "fact (nodes_visit L [] (filter (read_match av []) (entries s)) []) facts_NodeKind = nodes_Anchor L"
    and "Atoi (fact (nodes_visit L [] (filter (read_match av []) (entries s)) []) facts_AnchorStart) = Some a"
    and "Atoi (fact (nodes_visit L [] (filter (read_match av []) (entries s)) []) facts_AnchorEnd) = Some b"
    and "edge_targets L (entries s) anchor
               (\<lambda>e. IsForward L (EdgeKind e) \<and> EdgeKind e \<noteq> edges_ChildOf L) \<noteq> []"
  shows "entries s' = entries s \<and> set r \<subseteq> set r' \<and>
         (\<exists>new. log_lines s' = log_lines s @ new \<and>
            (\<forall>l\<in>set new. fst l \<noteq> ''Invalid anchor offset span %d:%d'' \<and>
               ArgVName anchor \<notin> set (snd l) \<and>
               (\<forall>v err. snd l \<noteq> [ArgString v, ArgString (ToString L anchor), err]))) \<and>
         ((\<exists>c\<in>set cs. TTarget c = anchor) \<longrightarrow>
            set (map (make_reference L txt (ToString L anchor) a b)
                   (edge_targets L (entries s) anchor
                      (\<lambda>e. IsForward L (EdgeKind e) \<and> EdgeKind e \<noteq> edges_ChildOf L))) \<subseteq> set r')"
  using assms
proof (induction cs arbitrary: n r t s)
  case Nil then show ?case by simp
next
  case (Cons c cs)
  from Cons.prems(1) obtain n1 r1 t1 s1 where
    st: "decor_child L req loc txt c (n, r, t) s = (Inr (n1, r1, t1), s1)"
    and lp: "for_range (decor_child L req loc txt) cs (n1, r1, t1) s1 = (Inr (n', r', t'), s')"
    by (auto split: prod.splits sum.splits)
  from decor_child_any[OF st Cons.prems(2,3,5,6,7)] obtain new1 where
    e1: "entries s1 = entries s" and r1: "set r \<subseteq> set r1"
    and l1: "log_lines s1 = log_lines s @ new1"
    and g1: "\<forall>l\<in>set new1. fst l \<noteq> ''Invalid anchor offset span %d:%d'' \<and>
               ArgVName anchor \<notin> set (snd l) \<and>
               (\<forall>v err. snd l \<noteq> [ArgString v, ArgString (ToString L anchor), err])"
    by blast
  from Cons.IH[OF lp Cons.prems(2,3) Cons.prems(4-7)[folded e1]] obtain new2 where
    e2: "entries s' = entries s1" and r2: "set r1 \<subseteq> set r'"
    and l2: "log_lines s' = log_lines s1 @ new2"
    and g2: "\<forall>l\<in>set new2. fst l \<noteq> ''Invalid anchor offset span %d:%d'' \<and>
               ArgVName anchor \<notin> set (snd l) \<and>
               (\<forall>v err. snd l \<noteq> [ArgString v, ArgString (ToString L anchor), err])"
    and m2: "(\<exists>c\<in>set cs. TTarget c = anchor) \<longrightarrow>
            set (map (make_reference L txt (ToString L anchor) a b)
                   (edge_targets L (entries s) anchor
                      (\<lambda>e. IsForward L (EdgeKind e) \<and> EdgeKind e \<noteq> edges_ChildOf L))) \<subseteq> set r'"
    unfolding e1 by blast
  have head: "TTarget c = anchor \<Longrightarrow>
            set (map (make_reference L txt (ToString L anchor) a b)
                   (edge_targets L (entries s) anchor
                      (\<lambda>e. IsForward L (EdgeKind e) \<and> EdgeKind e \<noteq> edges_ChildOf L))) \<subseteq> set r'"
  proof -
    assume c: "TTarget c = anchor"
    from decor_child_good[OF st Cons.prems(2), of av a b] Cons.prems(3-7) c
    have "r1 = r @ map (make_reference L txt (ToString L anchor) a b)
                    (edge_targets L (entries s) anchor
                       (\<lambda>e. IsForward L (EdgeKind e) \<and> EdgeKind e \<noteq> edges_ChildOf L))"
      by simp
    with r2 show ?thesis by auto
  qed
  have log: "log_lines s' = log_lines s @ (new1 @ new2)" using l1 l2 by simp
  have g: "\<forall>l\<in>set (new1 @ new2). fst l \<noteq> ''Invalid anchor offset span %d:%d'' \<and>
               ArgVName anchor \<notin> set (snd l) \<and>
               (\<forall>v err. snd l \<noteq> [ArgString v, ArgString (ToString L anchor), err])"
    using g1 g2 by auto
  show ?case
  proof (intro conjI impI)
    show "entries s' = entries s" using e1 e2 by simp
    show "set r \<subseteq> set r'" using r1 r2 by blast
    show "\<exists>new. log_lines s' = log_lines s @ new \<and>
            (\<forall>l\<in>set new. fst l \<noteq> ''Invalid anchor offset span %d:%d'' \<and>
               ArgVName anchor \<notin> set (snd l) \<and>
               (\<forall>v err. snd l \<noteq> [ArgString v, ArgString (ToString L anchor), err]))"
      using log g by blast
    assume "\<exists>c\<in>set (c # cs). TTarget c = anchor"
    then show "set (map (make_reference L txt (ToString L anchor) a b)
                   (edge_targets L (entries s) anchor
                      (\<lambda>e. IsForward L (EdgeKind e) \<and> EdgeKind e \<noteq> edges_ChildOf L))) \<subseteq> set r'"
      using head m2 by auto
  qed
qed

lemma getSourceText_frame:
  "getSourceText s v = (r, s') \<Longrightarrow> entries s' = entries s \<and> log_lines s' = log_lines s"
  by (auto simp: getSourceText_def split: prod.splits sum.splits option.splits dest: gs_Read_frame)

lemma edge_targets_member:
  assumes "e \<in> set es" and "Source e = node" and "EdgeKind e \<noteq> []" and "pred e"
  shows "\<lparr>TKind = fst (ParseOrdinal L (EdgeKind e)), TTarget = Target e,
           TOrdinal = int32 (fst (snd (ParseOrdinal L (EdgeKind e))))\<rparr>
         \<in> set (edge_targets L es node pred)"
proof -
  from assms have "e \<in> set (filter (\<lambda>entry. IsEdge entry \<and> pred entry) (filter (read_match node ''*'') es))"
    by (simp add: IsEdge_def read_match_def)
  then show ?thesis
    unfolding edge_targets_def set_map
    by (rule rev_image_eqI) (simp split: prod.splits)
qed

lemma decor_references_file:
  assumes dr: "decor_references L req fileV loc txt s = (Inr (refs, nodes), s')"
    and fl: "LocKind loc = Location_FILE"
    and child: "child \<in> set (entries s)" "Source child = fileV"
      "EdgeKind child = Mirror L (edges_ChildOf L)" "EdgeKind child \<noteq> []"
    and av: "ToVName L (ToString L (Target child)) = Some av"
    and fk: "node_fact_is s av facts_NodeKind (nodes_Anchor L)"
    and fa: "node_fact_is s av facts_AnchorStart startv" "Atoi startv = Some a"
    and fb: "node_fact_is s av facts_AnchorEnd endv" "Atoi endv = Some b"
    and e: "e \<in> set (entries s)" "Source e = Target child" "EdgeKind e \<noteq> []"
      "IsForward L (EdgeKind e)" "EdgeKind e \<noteq> edges_ChildOf L"
  shows "\<lparr>SourceTicket = ToString L (Target child), RKind = fst (ParseOrdinal L (EdgeKind e)),
           RTargetTicket = ToString L (Target e),
           AnchorStart = NormByteOffset L txt (int32 a),
           AnchorEnd = NormByteOffset L txt (int32 b)\<rparr> \<in> set refs \<and>
         (\<exists>new. log_lines s' = log_lines s @ new \<and>
            (\<forall>l\<in>set new. fst l \<noteq> ''Invalid anchor offset span %d:%d'' \<and>
               ArgVName (Target child) \<notin> set (snd l) \<and>
               (\<forall>v err. snd l \<noteq> [ArgString v, ArgString (ToString L (Target child)), err])))"
proof -
  let ?pred = "\<lambda>e. IsForward L (EdgeKind e) \<and> EdgeKind e \<noteq> edges_ChildOf L"
  let ?cpred = "\<lambda>e. EdgeKind e = Mirror L (edges_ChildOf L)"
  from dr obtain children s1 where ge: "getEdges L s fileV ?cpred = (Inr children, s1)"
    by (auto simp: decor_references_def split: prod.splits sum.splits)
  from getEdges_Inr[OF ge] have ch: "children = edge_targets L (entries s) fileV ?cpred"
    and e1: "entries s1 = entries s" and l1: "log_lines s1 = log_lines s" by simp_all
  from dr ge obtain n r t s2 where
    lp: "for_range (decor_child L req loc txt) children ([], [], []) s1 = (Inr (n, r, t), s2)"
    by (auto simp: decor_references_def split: prod.splits sum.splits)
  from dr ge lp have refs: "refs = sort_Sort Less r"
    by (auto simp: decor_references_def split: prod.splits sum.splits if_splits)
  from dr ge lp have "log_lines s' = log_lines s2"
    by (auto simp: decor_references_def split: prod.splits sum.splits if_splits dest: Nodes_frame)
  note l' = this
  let ?mk = "\<lparr>TKind = fst (ParseOrdinal L (EdgeKind e)), TTarget = Target e,
           TOrdinal = int32 (fst (snd (ParseOrdinal L (EdgeKind e))))\<rparr>"
  from edge_targets_member[of e "entries s" "Target child" ?pred L] e
  have mk: "?mk \<in> set (edge_targets L (entries s) (Target child) ?pred)" by simp
  then have tg: "edge_targets L (entries s1) (Target child) ?pred \<noteq> []"
    unfolding e1 by auto
  from edge_targets_member[of child "entries s" fileV ?cpred L] child
  have "\<exists>c\<in>set children. TTarget c = Target child"
    unfolding ch by (intro bexI[rotated]) auto
  note has = this
  note F = node_fact_is_fact[of s av _ _ L]
  from decor_children[OF lp fl av, of a b] F[OF fk] F[OF fa(1)] F[OF fb(1)] fa(2) fb(2) tg has
  obtain new where sub: "set (map (make_reference L txt (ToString L (Target child)) a b)
                   (edge_targets L (entries s1) (Target child) ?pred)) \<subseteq> set r"
    and lg: "log_lines s2 = log_lines s1 @ new"
    and g: "\<forall>l\<in>set new. fst l \<noteq> ''Invalid anchor offset span %d:%d'' \<and>
               ArgVName (Target child) \<notin> set (snd l) \<and>
               (\<forall>v err. snd l \<noteq> [ArgString v, ArgString (ToString L (Target child)), err])"
    unfolding e1 by auto
  from mk have "make_reference L txt (ToString L (Target child)) a b ?mk \<in> set r"
    using sub unfolding e1 by auto
  then have "\<lparr>SourceTicket = ToString L (Target child), RKind = fst (ParseOrdinal L (EdgeKind e)),
           RTargetTicket = ToString L (Target e),
           AnchorStart = NormByteOffset L txt (int32 a),
           AnchorEnd = NormByteOffset L txt (int32 b)\<rparr> \<in> set refs"
    unfolding refs set_sort_Sort by (simp add: make_reference_def)
  moreover from l' lg l1 g have "\<exists>new. log_lines s' = log_lines s @ new \<and>
            (\<forall>l\<in>set new. fst l \<noteq> ''Invalid anchor offset span %d:%d'' \<and>
               ArgVName (Target child) \<notin> set (snd l) \<and>
               (\<forall>v err. snd l \<noteq> [ArgString v, ArgString (ToString L (Target child)), err]))"
    by auto
  ultimately show ?thesis by simp
qed

lemma node_fact_is_entries: "entries s1 = entries s \<Longrightarrow> node_fact_is s1 = node_fact_is s"
  by (auto simp: node_fact_is_def fun_eq_iff)

text \<open>
  Claim C10. Take a reply of \<open>Decorations\<close> with references whose location is a file
  location, a child of the file whose node is an anchor with a start and an end offset
  that parse, and a forward edge of that anchor other than \<^verbatim>\<open>childof\<close>. Whatever the two
  offsets are, also when the start lies behind the end or behind the end of the text, the
  reply has the reference for that edge, with the points the normalizer makes of the two
  offsets; and no line the query logs is about a span or about that anchor.
\<close>

theorem Decorations_file_anchor:
  assumes "Decorations L req s = (Inr reply, s')" and "DReferences req"
    and "LocKind (RLocation reply) = Location_FILE"
    and "DLocation req = Some rloc" and "ToVName L (LocTicket rloc) = Some fileV"
    and "getSourceText s fileV = (Inr (txt, enc), s1)"
    and "child \<in> set (entries s)" and "Source child = fileV"
    and "EdgeKind child = Mirror L (edges_ChildOf L)" and "EdgeKind child \<noteq> []"
    and "ToVName L (ToString L (Target child)) = Some av"
    and "node_fact_is s av facts_NodeKind (nodes_Anchor L)"
    and "node_fact_is s av facts_AnchorStart startv" and "Atoi startv = Some a"
    and "node_fact_is s av facts_AnchorEnd endv" and "Atoi endv = Some b"
    and "e \<in> set (entries s)" and "Source e = Target child" and "EdgeKind e \<noteq> []"
    and "IsForward L (EdgeKind e)" and "EdgeKind e \<noteq> edges_ChildOf L"
  shows "\<lparr>SourceTicket = ToString L (Target child), RKind = fst (ParseOrdinal L (EdgeKind e)),
           RTargetTicket = ToString L (Target e),
           AnchorStart = NormByteOffset L txt (int32 a),
           AnchorEnd = NormByteOffset L txt (int32 b)\<rparr> \<in> set (RReference reply) \<and>
         (\<exists>new. log_lines s' = log_lines s @ new \<and>
            (\<forall>l\<in>set new. fst l \<noteq> ''Invalid anchor offset span %d:%d'' \<and>
               ArgVName (Target child) \<notin> set (snd l) \<and>
               (\<forall>v err. snd l \<noteq> [ArgString v, ArgString (ToString L (Target child)), err])))"
proof -
  note F = getSourceText_frame[OF assms(6)]
  from assms(1,2,4,5,6) obtain nodes where
    dr: "decor_references L req fileV (RLocation reply) txt s1 = (Inr (RReference reply, nodes), s')"
    by (auto simp: Decorations_def split: option.splits prod.splits sum.splits if_splits)
  have E: "entries s1 = entries s" using F by simp
  note N = node_fact_is_entries[OF E]
  from decor_references_file[OF dr assms(3) assms(7-11)[folded E] assms(12)[folded N]
      assms(13)[folded N] assms(14) assms(15)[folded N] assms(16) assms(17-21)[folded E]] F
  show ?thesis by simp
qed

lemma Decorations_example_inverted: "fst (Decorations lib0 req4 store10) = Inr reply10"
  by code_simp

lemma store10_kind: "node_fact_is store10 vA3 facts_NodeKind (nodes_Anchor lib0)"
  by code_simp

lemma store10_start: "node_fact_is store10 vA3 facts_AnchorStart ''20''"
  by code_simp

lemma store10_end: "node_fact_is store10 vA3 facts_AnchorEnd ''5''"
  by code_simp

theorem Decorations_file_anchor_witness:
  "Decorations lib0 req4 store10 = (Inr reply10, snd (Decorations lib0 req4 store10)) \<and>
   DReferences req4 \<and> LocKind (RLocation reply10) = Location_FILE \<and>
   edge_entry vF ''%/kythe/edge/childof'' vA3 \<in> set (entries store10) \<and>
   Atoi ''20'' = Some 20 \<and> Atoi ''5'' = Some 5 \<and>
   edge_entry vA3 ''/kythe/edge/ref'' vX \<in> set (entries store10) \<and>
   \<lparr>SourceTicket = ToString lib0 (Target (edge_entry vF ''%/kythe/edge/childof'' vA3)),
     RKind = fst (ParseOrdinal lib0 (EdgeKind (edge_entry vA3 ''/kythe/edge/ref'' vX))),
     RTargetTicket = ToString lib0 (Target (edge_entry vA3 ''/kythe/edge/ref'' vX)),
     AnchorStart = NormByteOffset lib0 ''abc\<newline>def\<newline>'' (int32 20),
     AnchorEnd = NormByteOffset lib0 ''abc\<newline>def\<newline>'' (int32 5)\<rparr>
     \<in> set (RReference reply10) \<and>
   AnchorStart (hd (RReference reply10)) = \<lparr>ByteOffset = 8, LineNumber = 3, ColumnOffset = 0\<rparr> \<and>
   log_lines (snd (Decorations lib0 req4 store10)) = []"
proof -
  note h = fst_eq_pair[OF Decorations_example_inverted]
  have r: "DReferences req4" and k: "LocKind (RLocation reply10) = Location_FILE"
    and l: "DLocation req4 = Some loc4" and f: "ToVName lib0 (LocTicket loc4) = Some vF"
    and c1: "edge_entry vF ''%/kythe/edge/childof'' vA3 \<in> set (entries store10)"
    and c2: "Source (edge_entry vF ''%/kythe/edge/childof'' vA3) = vF"
    and c3: "EdgeKind (edge_entry vF ''%/kythe/edge/childof'' vA3) = Mirror lib0 (edges_ChildOf lib0)"
    and c4: "EdgeKind (edge_entry vF ''%/kythe/edge/childof'' vA3) \<noteq> []"
    and av: "ToVName lib0 (ToString lib0 (Target (edge_entry vF ''%/kythe/edge/childof'' vA3))) = Some vA3"
    and a: "Atoi ''20'' = Some 20" and b: "Atoi ''5'' = Some 5"
    and e1: "edge_entry vA3 ''/kythe/edge/ref'' vX \<in> set (entries store10)"
    and e2: "Source (edge_entry vA3 ''/kythe/edge/ref'' vX) = Target (edge_entry vF ''%/kythe/edge/childof'' vA3)"
    and e3: "EdgeKind (edge_entry vA3 ''/kythe/edge/ref'' vX) \<noteq> []"
    and e4: "IsForward lib0 (EdgeKind (edge_entry vA3 ''/kythe/edge/ref'' vX))"
    and e5: "EdgeKind (edge_entry vA3 ''/kythe/edge/ref'' vX) \<noteq> edges_ChildOf lib0"
    and p: "AnchorStart (hd (RReference reply10)) = \<lparr>ByteOffset = 8, LineNumber = 3, ColumnOffset = 0\<rparr>"
    and g: "log_lines (snd (Decorations lib0 req4 store10)) = []"
    by code_simp+
  have "fst (getSourceText store10 vF) = Inr (''abc\<newline>def\<newline>'', [])" by code_simp
  note t = fst_eq_pair[OF this]
  note T = Decorations_file_anchor[OF h r k l f t c1 c2 c3 c4 av store10_kind store10_start a
      store10_end b e1 e2 e3 e4 e5, THEN conjunct1]
  show ?thesis
    by (intro conjI h r k c1 a b e1 T p g)
qed

section \<open>Anchor completion\<close>

lemma fetch_file_Inr:
  assumes "fetch_file L files parent s = (Inr (fl, files'), s')"
  shows "map_of files' parent = Some fl \<and> (\<forall>k f. map_of files k = Some f \<longrightarrow> map_of files' k = Some f)"
  using assms
  by (auto simp: fetch_file_def Let_def update_conv' split: option.splits prod.splits sum.splits)

lemma complete_anchor_Inr:
  assumes "complete_anchor L retrieveText edgeKind parents (ticket, info) (result, files) s
             = (Inr (result', files'), s')"
  shows "(\<forall>k f. map_of files k = Some f \<longrightarrow> map_of files' k = Some f) \<and>
         (result' = result \<or>
          (\<exists>a fl. result' = result @ [a] \<and> ATicket a = ticket \<and>
             map_of files' (AParent a) = Some fl \<and> completed L retrieveText info fl a))"
proof (cases "getSpan info facts_AnchorStart facts_AnchorEnd")
  case (Inl e)
  with assms show ?thesis by (simp add: complete_anchor_def)
next
  case (Inr se)
  obtain start "end" where se: "se = (start, end)" by (cases se)
  let ?parent = "fact parents ticket"
  from assms Inr se obtain fl s1 where ff: "fetch_file L files ?parent s = (Inr (fl, files'), s1)"
    by (auto simp: complete_anchor_def Let_def split: prod.splits sum.splits option.splits)
  note F = fetch_file_Inr[OF ff]
  obtain aStart aEnd err where ns: "normalizeSpan L (FText fl) (int32 start) (int32 end) = (aStart, aEnd, err)"
    by (cases "normalizeSpan L (FText fl) (int32 start) (int32 end)")
  show ?thesis
  proof (cases err)
    case (Some e)
    with assms Inr se ff ns have "result' = result"
      by (simp add: complete_anchor_def Let_def)
    with F show ?thesis by simp
  next
    case None
    from assms Inr se ff ns None obtain tx s2 where
      at: "anchor_text L retrieveText fl aStart aEnd s1 = (Inr tx, s2)"
      by (auto simp: complete_anchor_def Let_def split: prod.splits sum.splits)
    from assms Inr se ff ns None at obtain snippet snippetStart snippetEnd s3 where
      sn: "anchor_snippet L fl ticket ?parent info aStart s2 = (Inr (snippet, snippetStart, snippetEnd), s3)"
      by (auto simp: complete_anchor_def Let_def split: prod.splits sum.splits)
    let ?a = "\<lparr>ATicket = ticket, AKind = edgeKind, AParent = ?parent,
               AText = tx, AStart = aStart, AEnd = aEnd, ASnippet = snippet,
               ASnippetStart = snippetStart, ASnippetEnd = snippetEnd\<rparr>"
    from assms Inr se ff ns None at sn have r: "result' = result @ [?a]"
      by (simp add: complete_anchor_def Let_def)
    have "completed L retrieveText info fl ?a"
      unfolding completed_def using Inr se ns None at sn by auto
    with r F show ?thesis by auto
  qed
qed

lemma complete_anchors_loop:
  assumes "for_range (complete_anchor L retrieveText edgeKind parents) reply (result, files) s
             = (Inr (result', files'), s')"
    and "\<forall>a\<in>set result. \<exists>fl info. map_of files (AParent a) = Some fl \<and>
           (ATicket a, info) \<in> set reply0 \<and> completed L retrieveText info fl a"
    and "set reply \<subseteq> set reply0"
  shows "\<forall>a\<in>set result'. \<exists>fl info. map_of files' (AParent a) = Some fl \<and>
           (ATicket a, info) \<in> set reply0 \<and> completed L retrieveText info fl a"
  using assms
proof (induction reply arbitrary: result files s)
  case Nil then show ?case by simp
next
  case (Cons x reply)
  obtain ticket info where x: "x = (ticket, info)" by (cases x)
  from Cons.prems(1) obtain r1 f1 s1 where
    st: "complete_anchor L retrieveText edgeKind parents (ticket, info) (result, files) s = (Inr (r1, f1), s1)"
    and lp: "for_range (complete_anchor L retrieveText edgeKind parents) reply (r1, f1) s1 = (Inr (result', files'), s')"
    unfolding x by (auto split: prod.splits sum.splits)
  from complete_anchor_Inr[OF st] have mono: "\<forall>k f. map_of files k = Some f \<longrightarrow> map_of f1 k = Some f"
    and new: "r1 = result \<or>
          (\<exists>a fl. r1 = result @ [a] \<and> ATicket a = ticket \<and>
             map_of f1 (AParent a) = Some fl \<and> completed L retrieveText info fl a)"
    by simp_all
  from Cons.prems(3) x have mem: "(ticket, info) \<in> set reply0" by simp
  have "\<forall>a\<in>set r1. \<exists>fl info. map_of f1 (AParent a) = Some fl \<and>
           (ATicket a, info) \<in> set reply0 \<and> completed L retrieveText info fl a"
  proof
    fix a assume a: "a \<in> set r1"
    show "\<exists>fl info. map_of f1 (AParent a) = Some fl \<and>
           (ATicket a, info) \<in> set reply0 \<and> completed L retrieveText info fl a"
    proof (cases "a \<in> set result")
      case True
      with Cons.prems(2) mono show ?thesis by blast
    next
      case False
      with a new obtain fl where "ATicket a = ticket" "map_of f1 (AParent a) = Some fl"
        "completed L retrieveText info fl a" by auto
      with mem show ?thesis by blast
    qed
  qed
  from Cons.IH[OF lp this] Cons.prems(3) show ?case by simp
qed

lemma nodes_loop_distinct:
  "nodes_loop L p tvs nodes s = (Inr r, s') \<Longrightarrow> distinct (map fst nodes) \<Longrightarrow> distinct (map fst r)"
proof (induction tvs arbitrary: nodes s)
  case Nil then show ?case by simp
next
  case (Cons tv tvs)
  obtain t0 v0 where tv: "tv = (t0, v0)" by (cases tv)
  from Cons.prems(1)[unfolded tv] show ?case
  proof (rule nodes_loop_step)
    fix s1
    assume lp: "nodes_loop L p tvs
           (if nodes_visit L p (filter (read_match v0 []) (entries s)) [] \<noteq> []
            then AList.update t0 (nodes_visit L p (filter (read_match v0 []) (entries s)) []) nodes
            else nodes) s1 = (Inr r, s')"
    show ?thesis
      by (rule Cons.IH[OF lp]) (use Cons.prems(2) in \<open>simp add: distinct_update\<close>)
  qed
qed

lemma Nodes_distinct: "Nodes L req s = (Inr reply, s') \<Longrightarrow> distinct (map fst reply)"
  using nodes_loop_distinct[OF Nodes_Inr(3), of L req s reply s'] by simp

lemma completeAnchors_Inr:
  assumes "completeAnchors L retrieveText files edgeKind anchors s = (Inr (result, files'), s')"
    and "a \<in> set result"
  shows "\<exists>fl info v. map_of files' (AParent a) = Some fl \<and> ToVName L (ATicket a) = Some v \<and>
           info = nodes_visit L [schema_AnchorLocFilter L, schema_SnippetLocFilter L]
                    (filter (read_match v []) (entries s)) [] \<and>
           completed L retrieveText info fl a"
proof -
  from assms(1) obtain parents reply s1 where
    N: "Nodes L \<lparr>NTicket = anchors, NFilter = [schema_AnchorLocFilter L, schema_SnippetLocFilter L]\<rparr> s
          = (Inr reply, s1)"
    and lp: "for_range (complete_anchor L retrieveText (Canonical L edgeKind) parents) reply ([], files) s1
               = (Inr (result, files'), s')"
    by (auto simp: completeAnchors_def split: sum.splits prod.splits)
  from complete_anchors_loop[OF lp, of reply] assms(2) obtain fl info where
    f: "map_of files' (AParent a) = Some fl" and m: "(ATicket a, info) \<in> set reply"
    and c: "completed L retrieveText info fl a" by auto
  from Nodes_distinct[OF N] m have "map_of reply (ATicket a) = Some info" by simp
  from Nodes_Some[OF N this] f c show ?thesis by auto
qed

lemma fact_nodes_visit:
  assumes "fact (nodes_visit L p es []) name \<noteq> []"
  shows "\<exists>e\<in>set es. FactName e = name \<and> FactValue e = fact (nodes_visit L p es []) name"
proof -
  from assms obtain val where m: "map_of (nodes_visit L p es []) name = Some val"
    by (auto simp: fact_def split: option.splits)
  from nodes_visit_val[OF m] m show ?thesis by (auto simp: fact_def)
qed

lemma fact_nodes_visit_filtered:
  assumes "node_fact_is s v name val"
    and "fact (nodes_visit L p (filter (read_match v []) (entries s)) []) name \<noteq> []"
  shows "fact (nodes_visit L p (filter (read_match v []) (entries s)) []) name = val"
  using fact_nodes_visit[OF assms(2)] assms(1)
  by (auto simp: node_fact_is_def read_match_def)

lemma fact_nodes_visit_absent:
  assumes "\<forall>e\<in>set es. FactName e \<noteq> name"
  shows "fact (nodes_visit L p es []) name = []"
proof (rule ccontr)
  assume "fact (nodes_visit L p es []) name \<noteq> []"
  from fact_nodes_visit[OF this] assms show False by auto
qed

lemma getSpan_Inr:
  "getSpan facts startFact endFact = Inr (so, eo) \<Longrightarrow>
     fact facts startFact \<noteq> [] \<and> fact facts endFact \<noteq> [] \<and>
     Atoi (fact facts startFact) = Some so \<and> Atoi (fact facts endFact) = Some eo"
  by (auto simp: getSpan_def Let_def split: if_splits option.splits)

lemma normalizeSpan_None:
  "normalizeSpan L norm so eo = (start, end, None) \<Longrightarrow>
     start = NormByteOffset L norm so \<and> end = NormByteOffset L norm eo \<and>
     ByteOffset start = so \<and> ByteOffset end = eo"
  by (auto simp: normalizeSpan_def Let_def split: if_splits)

lemma anchor_text_empty:
  "anchor_text L retrieveText fl start end s = (Inr tx, s') \<Longrightarrow> ByteOffset start = ByteOffset end \<Longrightarrow> tx = []"
  by (auto simp: anchor_text_def split: if_splits)

lemma line_snippet_Inr:
  assumes "line_snippet L fl start s = (Inr (snippet, snippetStart, snippetEnd), s')"
  shows "snippetStart = \<lparr>ByteOffset = ByteOffset start - ColumnOffset start,
                          LineNumber = LineNumber start, ColumnOffset = 0\<rparr> \<and>
         ByteOffset snippetEnd
           = ByteOffset (NormPoint L (FText fl)
                           \<lparr>ByteOffset = 0, LineNumber = LineNumber start + 1, ColumnOffset = 0\<rparr>) - 1 \<and>
         (\<exists>bs. slice (FText fl) (ByteOffset snippetStart) (ByteOffset snippetEnd) = Some bs \<and>
               snippet = (case ToUTF8 L (FEncoding fl) bs of None \<Rightarrow> [] | Some str \<Rightarrow> str))"
  using assms
  by (auto simp: line_snippet_def decoded_def Let_def split: option.splits prod.splits)

lemma anchor_snippet_no_facts:
  assumes "fact info facts_SnippetStart = []"
  shows "anchor_snippet L fl ticket parent info start s = line_snippet L fl start s"
  using assms by (simp add: anchor_snippet_def provided_snippet_def getSpan_def)

text \<open>
  The anchors that are returned. \<open>completeAnchors\<close> is asked for the anchor text. An
  anchor it returns whose node has equal start and end offsets and has neither a snippet
  start nor a snippet end fact has the empty anchor text, and its snippet is the line
  snippet: it starts at the start of the line of the anchor, it ends one byte before the
  point the normalizer gives for the next line, and it is that slice of the text of the
  file, decoded (empty when the decoding fails).
\<close>

lemma completeAnchors_empty_span:
  assumes "completeAnchors L True files edgeKind anchors s = (Inr (result, files'), s')"
    and "a \<in> set result"
    and "ToVName L (ATicket a) = Some v"
    and "node_fact_is s v facts_AnchorStart startv" and "node_fact_is s v facts_AnchorEnd endv"
    and "Atoi startv = Some n" and "Atoi endv = Some n"
    and "\<forall>x\<in>set (entries s). Source x = v \<and> EdgeKind x = [] \<longrightarrow>
           FactName x \<noteq> facts_SnippetStart \<and> FactName x \<noteq> facts_SnippetEnd"
  shows "AText a = [] \<and>
         (\<exists>fl. map_of files' (AParent a) = Some fl \<and>
            AStart a = NormByteOffset L (FText fl) (int32 n) \<and>
            ASnippetStart a = \<lparr>ByteOffset = ByteOffset (AStart a) - ColumnOffset (AStart a),
                                LineNumber = LineNumber (AStart a), ColumnOffset = 0\<rparr> \<and>
            ByteOffset (ASnippetEnd a)
              = ByteOffset (NormPoint L (FText fl)
                  \<lparr>ByteOffset = 0, LineNumber = LineNumber (AStart a) + 1, ColumnOffset = 0\<rparr>) - 1 \<and>
            (\<exists>bs. slice (FText fl) (ByteOffset (ASnippetStart a)) (ByteOffset (ASnippetEnd a)) = Some bs \<and>
               ASnippet a = (case ToUTF8 L (FEncoding fl) bs of None \<Rightarrow> [] | Some str \<Rightarrow> str)))"
proof -
  let ?info = "nodes_visit L [schema_AnchorLocFilter L, schema_SnippetLocFilter L]
                    (filter (read_match v []) (entries s)) []"
  from completeAnchors_Inr[OF assms(1,2)] assms(3) obtain fl where
    f: "map_of files' (AParent a) = Some fl" and c: "completed L True ?info fl a"
    by auto
  from c obtain start "end" s1 s2 s3 where
    gs: "getSpan ?info facts_AnchorStart facts_AnchorEnd = Inr (start, end)"
    and ns: "normalizeSpan L (FText fl) (int32 start) (int32 end) = (AStart a, AEnd a, None)"
    and at: "anchor_text L True fl (AStart a) (AEnd a) s1 = (Inr (AText a), s2)"
    and sn: "anchor_snippet L fl (ATicket a) (AParent a) ?info (AStart a) s2
          = (Inr (ASnippet a, ASnippetStart a, ASnippetEnd a), s3)"
    unfolding completed_def by blast
  note G = getSpan_Inr[OF gs]
  from fact_nodes_visit_filtered[OF assms(4)] fact_nodes_visit_filtered[OF assms(5)] G assms(6,7)
  have se: "start = n" "end = n" by auto
  note N = normalizeSpan_None[OF ns]
  from N se have eq: "ByteOffset (AStart a) = ByteOffset (AEnd a)" by simp
  from anchor_text_empty[OF at eq] have tx: "AText a = []" .
  have "\<forall>e\<in>set (filter (read_match v []) (entries s)). FactName e \<noteq> facts_SnippetStart"
    using assms(8) by (auto simp: read_match_def)
  from fact_nodes_visit_absent[OF this] have "fact ?info facts_SnippetStart = []" .
  from sn[unfolded anchor_snippet_no_facts[OF this]]
  have "line_snippet L fl (AStart a) s2 = (Inr (ASnippet a, ASnippetStart a, ASnippetEnd a), s3)" .
  note S = line_snippet_Inr[OF this]
  from tx f N se S show ?thesis by auto
qed

lemma completeAnchors_example:
  "fst (completeAnchors lib0 True [] ''%/kythe/edge/ref'' [''kythe:?path=g#b''] store8)
     = Inr ([anchor8], [(''kythe:?path=g'', file8)])"
  by code_simp

lemma store8_start: "node_fact_is store8 vB facts_AnchorStart ''7''"
  by code_simp

lemma store8_end: "node_fact_is store8 vB facts_AnchorEnd ''7''"
  by code_simp

lemma store8_no_snippet:
  "\<forall>x\<in>set (entries store8). Source x = vB \<and> EdgeKind x = [] \<longrightarrow>
           FactName x \<noteq> facts_SnippetStart \<and> FactName x \<noteq> facts_SnippetEnd"
  by code_simp

lemma completeAnchors_empty_span_example:
  "completeAnchors lib0 True [] ''%/kythe/edge/ref'' [''kythe:?path=g#b''] store8
     = (Inr ([anchor8], [(''kythe:?path=g'', file8)]),
        snd (completeAnchors lib0 True [] ''%/kythe/edge/ref'' [''kythe:?path=g#b''] store8)) \<and>
   anchor8 \<in> set [anchor8] \<and> ToVName lib0 (ATicket anchor8) = Some vB \<and>
   Atoi ''7'' = Some 7 \<and> AText anchor8 = [] \<and> ASnippet anchor8 = ''world'' \<and>
   (\<exists>fl. map_of [(''kythe:?path=g'', file8)] (AParent anchor8) = Some fl \<and>
            AStart anchor8 = NormByteOffset lib0 (FText fl) (int32 7) \<and>
            ASnippetStart anchor8
              = \<lparr>ByteOffset = ByteOffset (AStart anchor8) - ColumnOffset (AStart anchor8),
                 LineNumber = LineNumber (AStart anchor8), ColumnOffset = 0\<rparr> \<and>
            ByteOffset (ASnippetEnd anchor8)
              = ByteOffset (NormPoint lib0 (FText fl)
                  \<lparr>ByteOffset = 0, LineNumber = LineNumber (AStart anchor8) + 1, ColumnOffset = 0\<rparr>) - 1 \<and>
            (\<exists>bs. slice (FText fl) (ByteOffset (ASnippetStart anchor8)) (ByteOffset (ASnippetEnd anchor8)) = Some bs \<and>
               ASnippet anchor8 = (case ToUTF8 lib0 (FEncoding fl) bs of None \<Rightarrow> [] | Some str \<Rightarrow> str)))"
proof -
  note h = fst_eq_pair[OF completeAnchors_example]
  have m: "anchor8 \<in> set [anchor8]" by simp
  have v: "ToVName lib0 (ATicket anchor8) = Some vB" and n: "Atoi ''7'' = Some 7"
    and w: "ASnippet anchor8 = ''world''"
    by code_simp+
  note T = completeAnchors_empty_span[OF h m v store8_start store8_end n n store8_no_snippet]
  show ?thesis
    by (intro conjI h m v n w T[THEN conjunct1] T[THEN conjunct2])
qed

text \<open>
  The line snippet of an anchor at the end of the text. The anchor starts its line and
  its offset is the length of the text, as after a last newline or in an empty text. For
  every normalizer that keeps the point of the next line inside the text, the snippet
  would start at the end of the text and end before it, and taking that slice of
  the text panics.
\<close>

lemma sint_pred:
  fixes x :: int32
  assumes "0 \<le> sint x"
  shows "sint (x - 1) = sint x - 1"
proof -
  have "sint x < 2 ^ 31" using sint_lt[of x] by simp
  with assms show ?thesis
    by (simp add: sint_word_ariths signed_take_bit_int_eq_self)
qed

lemma line_snippet_end_of_text:
  assumes "ColumnOffset start = 0"
    and "sint (ByteOffset start) = int (length (FText fl))"
    and "0 \<le> sint (ByteOffset (NormPoint L (FText fl)
                 \<lparr>ByteOffset = 0, LineNumber = LineNumber start + 1, ColumnOffset = 0\<rparr>))"
    and "sint (ByteOffset (NormPoint L (FText fl)
                 \<lparr>ByteOffset = 0, LineNumber = LineNumber start + 1, ColumnOffset = 0\<rparr>))
           \<le> int (length (FText fl))"
  shows "line_snippet L fl start s = (Inl (Panic ''slice bounds out of range''), s)"
proof -
  let ?next = "ByteOffset (NormPoint L (FText fl)
                 \<lparr>ByteOffset = 0, LineNumber = LineNumber start + 1, ColumnOffset = 0\<rparr>)"
  from sint_pred[OF assms(3)] assms(2,4) have "sint (?next - 1) < sint (ByteOffset start)"
    by simp
  then have "slice (FText fl) (ByteOffset start) (?next - 1) = None"
    by (simp add: slice_def)
  with assms(1) show ?thesis
    by (simp add: line_snippet_def Let_def)
qed

text \<open>
  Claim C8 at an anchor at the end of the text. The anchor of the first store has the
  offsets 12 and 12 in a text of 12 bytes that ends with a newline, and no snippet
  facts; the anchor of the second store has the offsets 0 and 0 in an empty text. Both
  spans are valid and fit the file. For neither anchor \<open>completeAnchors\<close> returns an
  anchor with a snippet: the slice of the line snippet is out of range and the call
  panics.
\<close>

theorem completeAnchors_end_of_text_panics:
  "fst (Nodes lib0 \<lparr>NTicket = [''kythe:?path=g#e''],
                    NFilter = [schema_AnchorLocFilter lib0, schema_SnippetLocFilter lib0]\<rparr> store8e)
     = Inr [(''kythe:?path=g#e'', [(''/kythe/loc/start'', ''12''), (''/kythe/loc/end'', ''12'')])] \<and>
   normalizeSpan lib0 ''hello\<newline>world\<newline>'' 12 12
     = (\<lparr>ByteOffset = 12, LineNumber = 3, ColumnOffset = 0\<rparr>,
        \<lparr>ByteOffset = 12, LineNumber = 3, ColumnOffset = 0\<rparr>, None) \<and>
   fst (completeAnchors lib0 True [] ''%/kythe/edge/ref'' [''kythe:?path=g#e''] store8e)
     = Inl (Panic ''slice bounds out of range'') \<and>
   fst (completeAnchors lib0 True [] ''%/kythe/edge/ref'' [''kythe:?path=g#e''] store8z)
     = Inl (Panic ''slice bounds out of range'')"
  by code_simp

end
